theory Spec2Isabelle
  imports Main "HOL-Library.Word"
begin

section \<open>The operating system as seen by led\_group.c\<close>

text \<open>
  The program talks to the kernel through \<open>open\<close>, \<open>read\<close>, \<open>write\<close>, \<open>lseek\<close> and
  \<open>close\<close>, and to the user through \<open>perror\<close> and \<open>fprintf(stderr, ...)\<close>. Each call
  is recorded, in program order, in a trace of events. A file descriptor is a C \<open>int\<close>;
  \<open>open\<close> returns \<open>-1\<close> on failure.
\<close>

type_synonym fd = int

text \<open>\<open>struct uleds_user_dev\<close> of \<open>linux/uleds.h\<close>: the record written to \<open>/dev/uleds\<close>.\<close>

record uleds_user_dev =
  dev_name :: string
  dev_max_brightness :: int

datatype event =
    Open string fd
  | Write_dev fd uleds_user_dev
  | Lseek fd int
  | Write fd string
  | Read fd
  | Close fd
  | Perror string
  | Stderr string

text \<open>
  The outcome of one \<open>read(fd, &brightness, sizeof brightness)\<close>: either the call fails
  (it returns \<open>-1\<close>), or it transfers \<open>n\<close> bytes (\<open>n = 0\<close> is end of stream) and the
  variable \<open>brightness\<close>, a 32-bit \<open>int\<close>, holds the given value afterwards.
\<close>

datatype read_result = Read_error | Read_bytes nat "32 word"

text \<open>
  What the kernel answers is not decided by the program: \<open>open_ok e n p\<close> tells whether the
  \<open>n\<close>-th call of \<open>open\<close>, on path \<open>p\<close>, succeeds; \<open>write_ret e n\<close> is the value the
  \<open>n\<close>-th call of \<open>write\<close> returns; \<open>reads e\<close> are the outcomes of the successive reads
  of the leader, and when they are used up the next \<open>read\<close> blocks for ever. The program
  wraps \<open>open\<close>, \<open>read\<close> and \<open>write\<close> in glibc's \<open>TEMP_FAILURE_RETRY\<close>, which repeats a
  call as long as it fails with \<open>EINTR\<close>: the outcomes here are those of the wrapped
  expression, that is of the last attempt.
\<close>

record env =
  open_ok :: "nat \<Rightarrow> string \<Rightarrow> bool"
  write_ret :: "nat \<Rightarrow> int"
  reads :: "read_result list"

text \<open>
  The state of the world: the descriptors of the process that are open, the number of
  \<open>open\<close> and \<open>write\<close> calls made so far, and the trace.
\<close>

record world =
  fd_table :: "fd list"
  n_open :: nat
  n_write :: nat
  trace :: "event list"

text \<open>\<open>open\<close> returns the lowest descriptor that is not open.\<close>

definition lowest_free :: "fd list \<Rightarrow> fd" where
  "lowest_free t = hd (filter (\<lambda>n. n \<notin> set t) (map int [0..<Suc (length t)]))"

definition sys_open :: "env \<Rightarrow> string \<Rightarrow> world \<Rightarrow> fd \<times> world" where
  "sys_open e path w =
     (let r = (if open_ok e (n_open w) path then lowest_free (fd_table w) else -1)
      in (r, w\<lparr>fd_table := (if r < 0 then fd_table w else r # fd_table w),
               n_open := Suc (n_open w),
               trace := trace w @ [Open path r]\<rparr>))"

definition sys_close :: "fd \<Rightarrow> world \<Rightarrow> world" where
  "sys_close f w = w\<lparr>fd_table := removeAll f (fd_table w), trace := trace w @ [Close f]\<rparr>"

definition sys_lseek :: "fd \<Rightarrow> int \<Rightarrow> world \<Rightarrow> world" where
  "sys_lseek f off w = w\<lparr>trace := trace w @ [Lseek f off]\<rparr>"

definition sys_write :: "env \<Rightarrow> fd \<Rightarrow> string \<Rightarrow> world \<Rightarrow> int \<times> world" where
  "sys_write e f buf w =
     (write_ret e (n_write w),
      w\<lparr>n_write := Suc (n_write w), trace := trace w @ [Write f buf]\<rparr>)"

definition sys_write_dev :: "env \<Rightarrow> fd \<Rightarrow> uleds_user_dev \<Rightarrow> world \<Rightarrow> int \<times> world" where
  "sys_write_dev e f dev w =
     (write_ret e (n_write w),
      w\<lparr>n_write := Suc (n_write w), trace := trace w @ [Write_dev f dev]\<rparr>)"

definition perror :: "string \<Rightarrow> world \<Rightarrow> world" where
  "perror msg w = w\<lparr>trace := trace w @ [Perror msg]\<rparr>"

definition fprintf_stderr :: "string \<Rightarrow> world \<Rightarrow> world" where
  "fprintf_stderr msg w = w\<lparr>trace := trace w @ [Stderr msg]\<rparr>"

subsection \<open>Formatting\<close>

text \<open>The conversion \<open>%d\<close> of \<open>printf\<close>: decimal digits, with a minus sign when negative.\<close>

definition digit_char :: "nat \<Rightarrow> char" where
  "digit_char d = ''0123456789'' ! d"

fun dec_nat :: "nat \<Rightarrow> string" where
  "dec_nat n = (if n < 10 then [digit_char n] else dec_nat (n div 10) @ [digit_char (n mod 10)])"

declare dec_nat.simps [simp del]

definition dec_int :: "int \<Rightarrow> string" where
  "dec_int i = (if i < 0 then CHR ''-'' # dec_nat (nat (- i)) else dec_nat (nat i))"

text \<open>\<open>snprintf(buf, sz, ...)\<close> stores at most \<open>sz - 1\<close> characters of the output.\<close>

definition snprintf :: "nat \<Rightarrow> string \<Rightarrow> string" where
  "snprintf sz out = take (sz - 1) out"

section \<open>The program\<close>

definition MAX_LEDS_IN_GROUP :: nat where
  "MAX_LEDS_IN_GROUP = 4"

definition max_brightness :: int where
  "max_brightness = 100"

text \<open>\<open>LED_MAX_NAME_SIZE\<close> comes from \<open>linux/uleds.h\<close>.\<close>

definition LED_MAX_NAME_SIZE :: nat where
  "LED_MAX_NAME_SIZE = 64"

definition EXIT_SUCCESS :: int where
  "EXIT_SUCCESS = 0"

definition EXIT_FAILURE :: int where
  "EXIT_FAILURE = 1"

text \<open>\<open>struct led_group\<close>: \<open>led_fds\<close> is an array of \<open>MAX_LEDS_IN_GROUP\<close> descriptors.\<close>

record led_group =
  count :: nat
  led_fds :: "fd list"

text \<open>The program's own \<open>strlcpy\<close> (the build sets \<open>HAVE_STRLCPY=0\<close>).\<close>

definition strlcpy :: "string \<Rightarrow> nat \<Rightarrow> string" where
  "strlcpy src len = take (len - 1) src"

definition update_led :: "env \<Rightarrow> fd \<Rightarrow> 32 word \<Rightarrow> world \<Rightarrow> world" where
  "update_led e f brightness w =
     (let buf = snprintf 20 (dec_int (sint brightness) @ ''\<newline>'');
          w1 = sys_lseek f 0 w;
          (r, w2) = sys_write e f buf w1
      in if r < 0 then perror ''failed to write to group LED'' w2 else w2)"

definition update_led_group :: "env \<Rightarrow> led_group \<Rightarrow> 32 word \<Rightarrow> world \<Rightarrow> world" where
  "update_led_group e g brightness w =
     fold (\<lambda>i. update_led e (led_fds g ! i) brightness) [0..<count g] w"

definition add_led_by_fd_to_led_group :: "led_group \<Rightarrow> fd \<Rightarrow> bool \<times> led_group" where
  "add_led_by_fd_to_led_group g f =
     (if count g \<ge> MAX_LEDS_IN_GROUP then (False, g)
      else (True, g\<lparr>led_fds := (led_fds g)[count g := f], count := count g + 1\<rparr>))"

definition led_brightness_path :: "string \<Rightarrow> string" where
  "led_brightness_path led_name =
     snprintf (LED_MAX_NAME_SIZE + 30) (''/sys/class/leds/'' @ led_name @ ''/brightness'')"

definition add_led_by_name_to_led_group ::
  "env \<Rightarrow> led_group \<Rightarrow> string \<Rightarrow> world \<Rightarrow> bool \<times> led_group \<times> world" where
  "add_led_by_name_to_led_group e g led_name w =
     (let (f, w1) = sys_open e (led_brightness_path led_name) w
      in if f < 0 then (False, g, w1)
         else let (added, g') = add_led_by_fd_to_led_group g f
              in if \<not> added then (if f \<ge> 0 then (added, g', sys_close f w1) else (added, g', w1))
                 else (added, g', w1))"

definition close_led_group_leds :: "led_group \<Rightarrow> world \<Rightarrow> world" where
  "close_led_group_leds g w = fold (\<lambda>i. sys_close (led_fds g ! i)) [0..<count g] w"

text \<open>
  The loop of \<open>track_led_brightness\<close> (built without \<open>WITH_TIMESTAMP\<close>) has no exit but
  the failed read. It is a recursion on the outcomes of the reads still to come; with none
  left the process sits in \<open>read\<close>, and the loop is still \<open>RUNNING\<close>.
\<close>

datatype loop_state = RUNNING | STOPPED

definition read_ret :: "read_result \<Rightarrow> int" where
  "read_ret r = (case r of Read_error \<Rightarrow> -1 | Read_bytes n v \<Rightarrow> int n)"

fun track_led_brightness ::
  "env \<Rightarrow> fd \<Rightarrow> led_group \<Rightarrow> read_result list \<Rightarrow> world \<Rightarrow> loop_state \<times> world" where
  "track_led_brightness e f g [] w = (RUNNING, w)"
| "track_led_brightness e f g (r # rs) w =
     (let w1 = w\<lparr>trace := trace w @ [Read f]\<rparr>
      in if read_ret r = -1
         then (STOPPED, perror ''Failed to read brightness from /dev/uleds'' w1)
         else (case r of Read_bytes n brightness \<Rightarrow>
                 track_led_brightness e f g rs (update_led_group e g brightness w1)))"

definition create_led_group_leader :: "env \<Rightarrow> string \<Rightarrow> world \<Rightarrow> fd \<times> world" where
  "create_led_group_leader e led_name w =
     (let uleds_dev = \<lparr>dev_name = strlcpy led_name LED_MAX_NAME_SIZE,
                       dev_max_brightness = max_brightness\<rparr>;
          (f, w1) = sys_open e ''/dev/uleds'' w
      in if f < 0 then (f, perror ''Failed to create LED group leader'' w1)
         else let (ret, w2) = sys_write_dev e f uleds_dev w1
              in if ret = -1
                 then (-1, sys_close f (perror ''Failed to create LED group leader'' w2))
                 else (f, w2))"

text \<open>The \<open>for\<close> loop of \<open>main\<close> over the follower names, left at the first failure.\<close>

fun add_leds :: "env \<Rightarrow> led_group \<Rightarrow> string list \<Rightarrow> world \<Rightarrow> bool \<times> led_group \<times> world" where
  "add_leds e g [] w = (True, g, w)"
| "add_leds e g (a # as) w =
     (case add_led_by_name_to_led_group e g a w of
        (added, g', w') \<Rightarrow>
          if \<not> added
          then (False, g', fprintf_stderr (''failed to add LED '' @ a @ '' to group\<newline>'') w')
          else add_leds e g' as w')"

text \<open>The label \<open>done\<close> of \<open>main\<close>.\<close>

definition main_done :: "fd \<Rightarrow> led_group \<Rightarrow> world \<Rightarrow> world" where
  "main_done f g w = close_led_group_leds g (if f \<ge> 0 then sys_close f w else w)"

text \<open>
  \<open>main\<close> returns its exit code, or \<open>None\<close> when it never returns (the loop is still
  running when the reads given by the environment are used up).
\<close>

definition main :: "env \<Rightarrow> string list \<Rightarrow> world \<Rightarrow> int option \<times> world" where
  "main e argv w =
     (let led_group = \<lparr>count = 0, led_fds = replicate MAX_LEDS_IN_GROUP 0\<rparr>
      in if int (length argv) < 4
         then (Some EXIT_FAILURE,
               main_done (-1) led_group
                 (fprintf_stderr (''format: '' @ (if argv = [] then ''(null)'' else hd argv)
                                  @ '' <group_name> <led 1> <led 2> ...\<newline>'') w))
         else (case create_led_group_leader e (argv ! 1) w of
                 (f, w1) \<Rightarrow>
                   if f = -1
                   then (Some EXIT_FAILURE,
                         main_done f led_group (perror ''Failed to open /dev/uleds'' w1))
                   else (case add_leds e led_group (drop 2 argv) w1 of
                           (ok, g, w2) \<Rightarrow>
                             if \<not> ok then (Some EXIT_FAILURE, main_done f g w2)
                             else (case track_led_brightness e f g (reads e) w2 of
                                     (STOPPED, w3) \<Rightarrow> (Some EXIT_SUCCESS, main_done f g w3)
                                   | (RUNNING, w3) \<Rightarrow> (None, w3)))))"

section \<open>Notions used to state the properties\<close>

text \<open>The events a run adds to the trace of the world it starts from.\<close>

definition new_events :: "world \<Rightarrow> world \<Rightarrow> event list" where
  "new_events w w' = drop (length (trace w)) (trace w')"

text \<open>The system calls of a trace: what remains without the messages on standard error.\<close>

fun is_message :: "event \<Rightarrow> bool" where
  "is_message (Perror m) = True"
| "is_message (Stderr m) = True"
| "is_message ev = False"

definition syscalls :: "event list \<Rightarrow> event list" where
  "syscalls es = filter (\<lambda>ev. \<not> is_message ev) es"

text \<open>The number a string of decimal digits stands for.\<close>

definition digit_value :: "char \<Rightarrow> nat" where
  "digit_value c = of_char c - 48"

definition dec_value :: "string \<Rightarrow> nat" where
  "dec_value s = foldl (\<lambda>a c. 10 * a + digit_value c) 0 s"

text \<open>The writes of a trace: descriptor and text, in order.\<close>

fun writes :: "event list \<Rightarrow> (fd \<times> string) list" where
  "writes [] = []"
| "writes (Write m t # es) = (m, t) # writes es"
| "writes (ev # es) = writes es"


text \<open>
  The fan-out as the specification words it: for each member handle, in the order of the
  set, seek to offset 0 and write the decimal text of the value followed by a newline.
\<close>

definition members :: "led_group \<Rightarrow> fd list" where
  "members g = take (count g) (led_fds g)"

definition write_all_spec :: "led_group \<Rightarrow> 32 word \<Rightarrow> event list" where
  "write_all_spec g v =
     concat (map (\<lambda>f. [Lseek f 0, Write f (dec_int (sint v) @ ''\<newline>'')]) (members g))"

text \<open>A group as \<open>main\<close> can build it: at most four members, in an array of four.\<close>

definition wf_group :: "led_group \<Rightarrow> bool" where
  "wf_group g = (count g \<le> MAX_LEDS_IN_GROUP \<and> length (led_fds g) = MAX_LEDS_IN_GROUP)"

text \<open>The values the loop takes from the reads: those before the first failed read.\<close>

fun accepted :: "read_result list \<Rightarrow> 32 word list" where
  "accepted [] = []"
| "accepted (Read_error # rs) = []"
| "accepted (Read_bytes n v # rs) = v # accepted rs"

text \<open>
  The events of a best-effort fan-out that starts at write number \<open>n\<close>: seek and write on
  each member in order, and a report after each write that failed.
\<close>

definition fan_out_trace :: "env \<Rightarrow> led_group \<Rightarrow> 32 word \<Rightarrow> nat \<Rightarrow> event list" where
  "fan_out_trace e g v n =
     concat (map (\<lambda>(k, m). [Lseek m 0, Write m (dec_int (sint v) @ ''\<newline>'')]
                      @ (if write_ret e k < 0
                         then [Perror ''failed to write to group LED''] else []))
                 (enumerate n (members g)))"

text \<open>
  The events of a loop that no failed write stops: each read that returns a byte count is
  followed by the whole fan-out of its value, and only a failed read, which is reported,
  ends the sequence.
\<close>

fun mirror_trace :: "env \<Rightarrow> fd \<Rightarrow> led_group \<Rightarrow> read_result list \<Rightarrow> nat \<Rightarrow> event list" where
  "mirror_trace e f g [] n = []"
| "mirror_trace e f g (Read_error # rs) n =
     [Read f, Perror ''Failed to read brightness from /dev/uleds'']"
| "mirror_trace e f g (Read_bytes k v # rs) n =
     Read f # fan_out_trace e g v n @ mirror_trace e f g rs (n + count g)"

text \<open>
  The handles the process holds after a sequence of events, starting from the set \<open>H\<close>:
  a successful \<open>open\<close> adds the descriptor it returns, a \<open>close\<close> removes one. The
  result is \<open>None\<close> as soon as a descriptor is closed that is not held (it was never
  opened, or it was closed before), or opened while it is held.
\<close>

fun step_owned :: "fd set option \<Rightarrow> event \<Rightarrow> fd set option" where
  "step_owned None ev = None"
| "step_owned (Some H) (Open p r) =
     (if r < 0 then Some H else if r \<in> H then None else Some (insert r H))"
| "step_owned (Some H) (Close f) = (if f \<in> H then Some (H - {f}) else None)"
| "step_owned (Some H) ev = Some H"

definition owned_after :: "fd set \<Rightarrow> event list \<Rightarrow> fd set option" where
  "owned_after H es = foldl step_owned (Some H) es"

text \<open>Every handle opened in the trace is closed exactly once, later in the trace.\<close>

definition closed_exactly_once :: "event list \<Rightarrow> bool" where
  "closed_exactly_once es = (owned_after {} es = Some {})"

text \<open>
  Setup in terms of what the kernel answers. The attribute files of the followers open
  when the calls of \<open>open\<close> numbered from \<open>n\<close> on succeed, one for each name in order.
\<close>

fun opens_ok :: "env \<Rightarrow> nat \<Rightarrow> string list \<Rightarrow> bool" where
  "opens_ok e n [] = True"
| "opens_ok e n (a # as) = (open_ok e n (led_brightness_path a) \<and> opens_ok e (Suc n) as)"

text \<open>
  Setup succeeds when the command line names a leader and at least two followers,
  \<open>/dev/uleds\<close> opens, the registration write does not return \<open>-1\<close>, there are at most
  \<open>MAX_LEDS_IN_GROUP\<close> followers and the attribute file of each of them opens.
\<close>

definition setup_succeeds :: "env \<Rightarrow> string list \<Rightarrow> world \<Rightarrow> bool" where
  "setup_succeeds e argv w =
     (4 \<le> length argv
      \<and> open_ok e (n_open w) ''/dev/uleds''
      \<and> write_ret e (n_write w) \<noteq> -1
      \<and> length (drop 2 argv) \<le> MAX_LEDS_IN_GROUP
      \<and> opens_ok e (Suc (n_open w)) (drop 2 argv))"

section \<open>Concrete runs\<close>

text \<open>A process that starts with standard input, output and error open.\<close>

definition boot :: world where
  "boot = \<lparr>fd_table = [0, 1, 2], n_open = 0, n_write = 0, trace = []\<rparr>"

text \<open>
  A kernel in which the paths \<open>missing\<close> cannot be opened, the writes numbered in
  \<open>failing\<close> fail, every other write transfers three bytes, and the leader delivers \<open>rs\<close>.
\<close>

definition scenario :: "string list \<Rightarrow> nat list \<Rightarrow> read_result list \<Rightarrow> env" where
  "scenario missing failing rs =
     \<lparr>open_ok = (\<lambda>n p. p \<notin> set missing),
      write_ret = (\<lambda>n. if n \<in> set failing then -1 else 3),
      reads = rs\<rparr>"

text \<open>A group of two followers, on the descriptors 4 and 5.\<close>

definition two_leds :: led_group where
  "two_leds = \<lparr>count = 2, led_fds = [4, 5, 0, 0]\<rparr>"

text \<open>
  A group that is full, on the descriptors 4 to 7, in a process that also holds the
  leader on descriptor 3.
\<close>

definition four_leds :: led_group where
  "four_leds = \<lparr>count = 4, led_fds = [4, 5, 6, 7]\<rparr>"

definition world_of_four :: world where
  "world_of_four = \<lparr>fd_table = [7, 6, 5, 4, 3, 0, 1, 2], n_open = 5, n_write = 1, trace = []\<rparr>"


text \<open>A group of one follower, on descriptor 4, in a process that holds it.\<close>

definition one_led :: led_group where
  "one_led = \<lparr>count = 1, led_fds = [4, 0, 0, 0]\<rparr>"

definition world_of_one :: world where
  "world_of_one = \<lparr>fd_table = [4, 3, 0, 1, 2], n_open = 2, n_write = 1, trace = []\<rparr>"

section \<open>Properties\<close>

subsection \<open>Descriptors and formatting\<close>

lemma lowest_free_candidates:
  "filter (\<lambda>n. n \<notin> set t) (map int [0..<Suc (length t)]) \<noteq> []"
proof
  assume "filter (\<lambda>n. n \<notin> set t) (map int [0..<Suc (length t)]) = []"
  then have "\<forall>x \<in> set (map int [0..<Suc (length t)]). \<not> x \<notin> set t"
    unfolding filter_empty_conv .
  then have sub: "int ` {0..<Suc (length t)} \<subseteq> set t"
    by (auto simp del: upt_Suc)
  have "card (int ` {0..<Suc (length t)}) = Suc (length t)"
    by (simp add: card_image)
  moreover have "card (int ` {0..<Suc (length t)}) \<le> card (set t)"
    using sub by (intro card_mono) auto
  moreover have "card (set t) \<le> length t" by (rule card_length)
  ultimately show False by simp
qed

lemma lowest_free_fresh: "lowest_free t \<notin> set t"
proof -
  have "lowest_free t \<in> set (filter (\<lambda>n. n \<notin> set t) (map int [0..<Suc (length t)]))"
    unfolding lowest_free_def by (rule hd_in_set [OF lowest_free_candidates])
  then show ?thesis by (simp del: upt_Suc)
qed

lemma lowest_free_nonneg: "0 \<le> lowest_free t"
proof -
  have "lowest_free t \<in> set (filter (\<lambda>n. n \<notin> set t) (map int [0..<Suc (length t)]))"
    unfolding lowest_free_def by (rule hd_in_set [OF lowest_free_candidates])
  then show ?thesis by (auto simp del: upt_Suc)
qed

lemma length_dec_nat: "0 < k \<Longrightarrow> n < 10 ^ k \<Longrightarrow> length (dec_nat n) \<le> k"
proof (induction n arbitrary: k rule: dec_nat.induct)
  case (1 n)
  show ?case
  proof (cases "n < 10")
    case True
    then show ?thesis using "1.prems" by (simp add: dec_nat.simps[of n])
  next
    case False
    obtain j where kj: "k = Suc j" using "1.prems" by (cases k) auto
    have "0 < j" using False "1.prems" kj by (cases j) auto
    note k = kj this
    have "n div 10 < 10 ^ j" using "1.prems" k by (simp add: less_mult_imp_div_less mult.commute) 
    then have "length (dec_nat (n div 10)) \<le> j" using "1.IH"[OF False k(2)] by simp
    then show ?thesis using False k by (simp add: dec_nat.simps[of n])
  qed
qed

lemma length_dec_int32: "length (dec_int (sint (v :: 32 word))) \<le> 11"
proof -
  have lo: "- (2 ^ 31) \<le> sint v" and hi: "sint v < 2 ^ 31"
    using sint_ge[of v] sint_lt[of v] by simp_all
  show ?thesis
  proof (cases "sint v < 0")
    case True
    have "nat (- sint v) < 10 ^ 10" using lo by simp
    then have "length (dec_nat (nat (- sint v))) \<le> 10" by (intro length_dec_nat) simp_all
    then show ?thesis using True by (simp add: dec_int_def)
  next
    case False
    have "nat (sint v) < 10 ^ 10" using hi by simp
    then have "length (dec_nat (nat (sint v))) \<le> 10" by (intro length_dec_nat) simp_all
    then show ?thesis using False by (simp add: dec_int_def)
  qed
qed

lemma snprintf_brightness:
  "snprintf 20 (dec_int (sint (v :: 32 word)) @ ''\<newline>'') = dec_int (sint v) @ ''\<newline>''"
  using length_dec_int32[of v] by (simp add: snprintf_def)

lemma digit_value_digit_char: "d < 10 \<Longrightarrow> digit_value (digit_char d) = d"
proof -
  assume "d < 10"
  then consider "d = 0" | "d = 1" | "d = 2" | "d = 3" | "d = 4" | "d = 5" | "d = 6" | "d = 7"
    | "d = 8" | "d = 9"
    by atomize_elim arith
  then show ?thesis
    by cases (simp_all add: digit_value_def digit_char_def)
qed

lemma dec_value_dec_nat: "dec_value (dec_nat n) = n"
proof (induction n rule: dec_nat.induct)
  case (1 n)
  show ?case
  proof (cases "n < 10")
    case True
    then show ?thesis by (simp add: dec_nat.simps[of n] dec_value_def digit_value_digit_char)
  next
    case False
    have "dec_value (dec_nat n) = 10 * dec_value (dec_nat (n div 10)) + digit_value (digit_char (n mod 10))"
      using False by (simp add: dec_nat.simps[of n] dec_value_def)
    then show ?thesis using "1.IH"[OF False] by (simp add: digit_value_digit_char)
  qed
qed

lemma dec_value_dec_int:
  "dec_value (if i < 0 then tl (dec_int i) else dec_int i) = nat \<bar>i\<bar>"
  by (simp add: dec_int_def dec_value_dec_nat)

subsection \<open>The fan-out\<close>

lemma update_led_eq:
  "update_led e f v w =
     w\<lparr>n_write := Suc (n_write w),
       trace := trace w @ [Lseek f 0, Write f (dec_int (sint v) @ ''\<newline>'')]
                @ (if write_ret e (n_write w) < 0 then [Perror ''failed to write to group LED''] else [])\<rparr>"
  by (simp add: update_led_def sys_lseek_def sys_write_def perror_def snprintf_brightness)

lemma fold_update_led:
  "fold (\<lambda>f. update_led e f v) fs w =
     w\<lparr>n_write := n_write w + length fs,
       trace := trace w @ concat (map (\<lambda>(k, f). [Lseek f 0, Write f (dec_int (sint v) @ ''\<newline>'')]
                @ (if write_ret e k < 0 then [Perror ''failed to write to group LED''] else []))
                 (enumerate (n_write w) fs))\<rparr>"
proof (induction fs arbitrary: w)
  case Nil
  show ?case by simp
next
  case (Cons f fs)
  have u: "update_led e f v w = w\<lparr>n_write := Suc (n_write w),
       trace := trace w @ [Lseek f 0, Write f (dec_int (sint v) @ ''\<newline>'')]
                @ (if write_ret e (n_write w) < 0 then [Perror ''failed to write to group LED''] else [])\<rparr>"
    by (rule update_led_eq)
  have "fold (\<lambda>f. update_led e f v) (f # fs) w
          = fold (\<lambda>f. update_led e f v) fs (update_led e f v w)"
    by simp
  also have "\<dots> = (update_led e f v w)\<lparr>n_write := n_write (update_led e f v w) + length fs,
       trace := trace (update_led e f v w) @ concat (map (\<lambda>(k, f). [Lseek f 0, Write f (dec_int (sint v) @ ''\<newline>'')]
                @ (if write_ret e k < 0 then [Perror ''failed to write to group LED''] else []))
                 (enumerate (n_write (update_led e f v w)) fs))\<rparr>"
    by (rule Cons.IH)
  also have "\<dots> = w\<lparr>n_write := n_write w + length (f # fs),
       trace := trace w @ concat (map (\<lambda>(k, f). [Lseek f 0, Write f (dec_int (sint v) @ ''\<newline>'')]
                @ (if write_ret e k < 0 then [Perror ''failed to write to group LED''] else []))
                 (enumerate (n_write w) (f # fs)))\<rparr>"
    unfolding u by simp
  finally show ?case .
qed

lemma members_nth: "count g \<le> length (led_fds g) \<Longrightarrow> map (\<lambda>i. led_fds g ! i) [0..<count g] = members g"
  unfolding members_def by (rule nth_equalityI) simp_all

lemma update_led_group_eq:
  assumes "wf_group g"
  shows "update_led_group e g v w =
     w\<lparr>n_write := n_write w + count g,
       trace := trace w @ concat (map (\<lambda>(k, f). [Lseek f 0, Write f (dec_int (sint v) @ ''\<newline>'')]
                @ (if write_ret e k < 0 then [Perror ''failed to write to group LED''] else []))
                 (enumerate (n_write w) (members g)))\<rparr>"
proof -
  have c: "count g \<le> length (led_fds g)" using assms by (simp add: wf_group_def)
  have "fold (\<lambda>i. update_led e (led_fds g ! i) v) [0..<count g] w
          = fold (\<lambda>f. update_led e f v) (map (\<lambda>i. led_fds g ! i) [0..<count g]) w"
    by (simp add: fold_map comp_def)
  then have "update_led_group e g v w = fold (\<lambda>f. update_led e f v) (members g) w"
    unfolding update_led_group_def by (simp only: members_nth[OF c])
  moreover have "length (members g) = count g" using c by (simp add: members_def)
  ultimately show ?thesis by (simp add: fold_update_led)
qed

lemma syscalls_fanout:
  "syscalls (concat (map (\<lambda>(k, f). Lseek f 0 # Write f t
                # (if write_ret e k < 0 then [Perror m] else [])) (enumerate n fs)))
   = concat (map (\<lambda>f. [Lseek f 0, Write f t]) fs)"
  by (induction fs arbitrary: n) (simp_all add: syscalls_def)

lemma update_led_group_trace:
  assumes "wf_group g"
  shows "\<exists>es. trace (update_led_group e g v w) = trace w @ es \<and> syscalls es = write_all_spec g v
      \<and> fd_table (update_led_group e g v w) = fd_table w"
  unfolding update_led_group_eq[OF assms] write_all_spec_def
  by (simp add: syscalls_fanout)

subsection \<open>The mirror loop\<close>

lemma read_ret_error: "(read_ret r = -1) = (r = Read_error)"
  by (cases r) (simp_all add: read_ret_def)

lemma track_state:
  "fst (track_led_brightness e f g rs w) = (if Read_error \<in> set rs then STOPPED else RUNNING)"
proof (induction rs arbitrary: w)
  case Nil
  show ?case by simp
next
  case (Cons r rs)
  show ?case
  proof (cases r)
    case Read_error
    then show ?thesis by (simp add: read_ret_def)
  next
    case (Read_bytes n v)
    then show ?thesis using Cons.IH by (simp add: read_ret_def)
  qed
qed

lemma track_trace:
  assumes g: "wf_group g"
  shows "\<exists>es. trace (snd (track_led_brightness e f g rs w)) = trace w @ es
           \<and> syscalls es = concat (map (\<lambda>v. Read f # write_all_spec g v) (accepted rs))
                            @ (if Read_error \<in> set rs then [Read f] else [])
           \<and> fd_table (snd (track_led_brightness e f g rs w)) = fd_table w"
proof (induction rs arbitrary: w)
  case Nil
  show ?case by (simp add: syscalls_def)
next
  case (Cons r rs)
  show ?case
  proof (cases r)
    case Read_error
    then show ?thesis by (simp add: read_ret_def perror_def syscalls_def)
  next
    case (Read_bytes n v)
    define w1 where "w1 = w\<lparr>trace := trace w @ [Read f]\<rparr>"
    define w2 where "w2 = update_led_group e g v w1"
    obtain es1 where es1: "trace w2 = trace w1 @ es1" "syscalls es1 = write_all_spec g v"
      "fd_table w2 = fd_table w1"
      using update_led_group_trace[OF g, of e v w1] unfolding w2_def by blast
    obtain es2 where es2: "trace (snd (track_led_brightness e f g rs w2)) = trace w2 @ es2"
      "syscalls es2 = concat (map (\<lambda>v. Read f # write_all_spec g v) (accepted rs))
                            @ (if Read_error \<in> set rs then [Read f] else [])"
      "fd_table (snd (track_led_brightness e f g rs w2)) = fd_table w2"
      using Cons.IH[of w2] by blast
    have step: "track_led_brightness e f g (r # rs) w = track_led_brightness e f g rs w2"
      using Read_bytes by (simp add: read_ret_def w1_def w2_def)
    have "trace (snd (track_led_brightness e f g (r # rs) w)) = trace w @ (Read f # es1 @ es2)"
      unfolding step es2(1) es1(1) by (simp add: w1_def)
    moreover have "syscalls (Read f # es1 @ es2)
        = concat (map (\<lambda>v. Read f # write_all_spec g v) (accepted (r # rs)))
                            @ (if Read_error \<in> set (r # rs) then [Read f] else [])"
      using es1(2) es2(2) Read_bytes by (simp add: syscalls_def)
    moreover have "fd_table (snd (track_led_brightness e f g (r # rs) w)) = fd_table w"
      unfolding step es2(3) es1(3) by (simp add: w1_def)
    ultimately show ?thesis by blast
  qed
qed

subsection \<open>Handles held along a trace\<close>

lemma owned_after_append:
  "owned_after H (es @ es') = (case owned_after H es of None \<Rightarrow> None | Some H' \<Rightarrow> owned_after H' es')"
proof -
  have none: "foldl step_owned None es' = None" for es'
    by (induction es') simp_all
  show ?thesis
    by (cases "foldl step_owned (Some H) es") (simp_all add: owned_after_def none)
qed

lemma step_owned_message: "is_message ev \<Longrightarrow> step_owned S ev = S"
  by (cases S; cases ev) simp_all

lemma owned_after_syscalls: "owned_after H es = owned_after H (syscalls es)"
proof -
  have "foldl step_owned S es = foldl step_owned S (syscalls es)" for S
    by (induction es arbitrary: S) (simp_all add: syscalls_def step_owned_message)
  then show ?thesis by (simp add: owned_after_def)
qed

lemma owned_after_write_all_spec: "owned_after H (write_all_spec g v @ es) = owned_after H es"
proof -
  have "foldl step_owned (Some H) (concat (map (\<lambda>f. [Lseek f 0, Write f t]) fs) @ es)
          = foldl step_owned (Some H) es" for fs t
    by (induction fs) simp_all
  then show ?thesis by (simp add: owned_after_def write_all_spec_def)
qed

lemma owned_after_mirror:
  "owned_after H (concat (map (\<lambda>v. Read f # write_all_spec g v) vs) @ es) = owned_after H es"
proof (induction vs)
  case Nil
  show ?case by simp
next
  case (Cons v vs)
  have "owned_after H (concat (map (\<lambda>v. Read f # write_all_spec g v) (v # vs)) @ es)
          = owned_after H ([Read f] @ write_all_spec g v
               @ (concat (map (\<lambda>v. Read f # write_all_spec g v) vs) @ es))"
    by simp
  also have "\<dots> = owned_after H (write_all_spec g v
               @ (concat (map (\<lambda>v. Read f # write_all_spec g v) vs) @ es))"
    by (simp add: owned_after_def)
  also have "\<dots> = owned_after H es"
    by (simp only: owned_after_write_all_spec Cons.IH)
  finally show ?case .
qed

lemma owned_after_closes:
  "distinct fs \<Longrightarrow> set fs \<subseteq> H \<Longrightarrow> owned_after H (map Close fs) = Some (H - set fs)"
proof (induction fs arbitrary: H)
  case Nil
  show ?case by (simp add: owned_after_def)
next
  case (Cons f fs)
  have "owned_after H (map Close (f # fs)) = owned_after H ([Close f] @ map Close fs)"
    by simp
  also have "\<dots> = owned_after (H - {f}) (map Close fs)"
    using Cons.prems by (simp add: owned_after_append) (simp add: owned_after_def)
  also have "\<dots> = Some (H - {f} - set fs)"
    using Cons.prems by (intro Cons.IH) auto
  also have "H - {f} - set fs = H - set (f # fs)" by auto
  finally show ?case .
qed

subsection \<open>Closing\<close>

lemma fold_sys_close:
  "fold sys_close fs w =
     w\<lparr>fd_table := filter (\<lambda>x. x \<notin> set fs) (fd_table w), trace := trace w @ map Close fs\<rparr>"
proof (induction fs arbitrary: w)
  case Nil
  show ?case by simp
next
  case (Cons f fs)
  have "fold sys_close (f # fs) w = fold sys_close fs (sys_close f w)" by simp
  also have "\<dots> = (sys_close f w)\<lparr>fd_table := filter (\<lambda>x. x \<notin> set fs) (fd_table (sys_close f w)),
                trace := trace (sys_close f w) @ map Close fs\<rparr>"
    by (rule Cons.IH)
  also have "\<dots> = w\<lparr>fd_table := filter (\<lambda>x. x \<notin> set (f # fs)) (fd_table w),
                trace := trace w @ map Close (f # fs)\<rparr>"
    by (simp add: sys_close_def removeAll_filter_not_eq conj_commute eq_commute)
  finally show ?case .
qed

lemma close_led_group_leds_eq:
  assumes "wf_group g"
  shows "close_led_group_leds g w =
     w\<lparr>fd_table := filter (\<lambda>x. x \<notin> set (members g)) (fd_table w),
       trace := trace w @ map Close (members g)\<rparr>"
proof -
  have c: "count g \<le> length (led_fds g)" using assms by (simp add: wf_group_def)
  have "fold (\<lambda>i. sys_close (led_fds g ! i)) [0..<count g] w
          = fold sys_close (map (\<lambda>i. led_fds g ! i) [0..<count g]) w"
    by (simp add: fold_map comp_def)
  then have "close_led_group_leds g w = fold sys_close (members g) w"
    unfolding close_led_group_leds_def by (simp only: members_nth[OF c])
  then show ?thesis by (simp add: fold_sys_close)
qed

subsection \<open>Adding a follower\<close>

lemma sys_open_failed:
  "\<not> open_ok e (n_open w) p \<Longrightarrow>
     sys_open e p w = (-1, w\<lparr>n_open := Suc (n_open w), trace := trace w @ [Open p (-1)]\<rparr>)"
  by (simp add: sys_open_def Let_def)

lemma sys_open_ok:
  "open_ok e (n_open w) p \<Longrightarrow>
     sys_open e p w = (lowest_free (fd_table w),
        w\<lparr>fd_table := lowest_free (fd_table w) # fd_table w, n_open := Suc (n_open w),
          trace := trace w @ [Open p (lowest_free (fd_table w))]\<rparr>)"
  using lowest_free_nonneg[of "fd_table w"] by (simp add: sys_open_def Let_def)

lemma add_by_name_open_failed:
  assumes "\<not> open_ok e (n_open w) (led_brightness_path a)"
  shows "add_led_by_name_to_led_group e g a w =
           (False, g, w\<lparr>n_open := Suc (n_open w),
                         trace := trace w @ [Open (led_brightness_path a) (-1)]\<rparr>)"
  using assms by (simp add: add_led_by_name_to_led_group_def sys_open_failed)

lemma add_by_name_full:
  assumes "open_ok e (n_open w) (led_brightness_path a)" and "MAX_LEDS_IN_GROUP \<le> count g"
  shows "add_led_by_name_to_led_group e g a w =
           (False, g, w\<lparr>n_open := Suc (n_open w),
                         trace := trace w @ [Open (led_brightness_path a) (lowest_free (fd_table w)),
                                             Close (lowest_free (fd_table w))]\<rparr>)"
  using assms lowest_free_nonneg[of "fd_table w"] lowest_free_fresh[of "fd_table w"]
  by (simp add: add_led_by_name_to_led_group_def sys_open_ok add_led_by_fd_to_led_group_def
        sys_close_def)

lemma add_by_name_added:
  assumes "open_ok e (n_open w) (led_brightness_path a)" and "count g < MAX_LEDS_IN_GROUP"
  shows "add_led_by_name_to_led_group e g a w =
           (True, g\<lparr>led_fds := (led_fds g)[count g := lowest_free (fd_table w)],
                     count := count g + 1\<rparr>,
            w\<lparr>fd_table := lowest_free (fd_table w) # fd_table w,
              n_open := Suc (n_open w),
              trace := trace w @ [Open (led_brightness_path a) (lowest_free (fd_table w))]\<rparr>)"
  using assms lowest_free_nonneg[of "fd_table w"]
  by (simp add: add_led_by_name_to_led_group_def sys_open_ok add_led_by_fd_to_led_group_def)

lemma members_added:
  assumes "wf_group g" and "count g < MAX_LEDS_IN_GROUP"
  shows "members (g\<lparr>led_fds := (led_fds g)[count g := r], count := count g + 1\<rparr>) = members g @ [r]"
    and "wf_group (g\<lparr>led_fds := (led_fds g)[count g := r], count := count g + 1\<rparr>)"
  using assms by (simp_all add: members_def wf_group_def take_Suc_conv_app_nth)

text \<open>
  What holds between the handles \<open>L\<close> held besides the members, the group and the
  descriptor table while followers are added.
\<close>

lemma add_by_name_inv:
  assumes inv: "wf_group g" "distinct (members g)" "L \<inter> set (members g) = {}"
      "L \<union> set (members g) \<subseteq> set (fd_table w)"
    and res: "add_led_by_name_to_led_group e g a w = (ok, g', w')"
  shows "\<exists>es. trace w' = trace w @ es
           \<and> owned_after (L \<union> set (members g)) es = Some (L \<union> set (members g'))
           \<and> wf_group g' \<and> distinct (members g') \<and> L \<inter> set (members g') = {}
           \<and> L \<union> set (members g') \<subseteq> set (fd_table w')"
proof -
  let ?p = "led_brightness_path a" and ?r = "lowest_free (fd_table w)"
  have fresh: "?r \<notin> set (fd_table w)" "0 \<le> ?r"
    by (rule lowest_free_fresh, rule lowest_free_nonneg)
  then have notin: "?r \<notin> L \<union> set (members g)" using inv(4) by blast
  consider (failed) "\<not> open_ok e (n_open w) ?p"
    | (full) "open_ok e (n_open w) ?p" "MAX_LEDS_IN_GROUP \<le> count g"
    | (added) "open_ok e (n_open w) ?p" "count g < MAX_LEDS_IN_GROUP"
    by fastforce
  then show ?thesis
  proof cases
    case failed
    have "g' = g" "w' = w\<lparr>n_open := Suc (n_open w), trace := trace w @ [Open ?p (-1)]\<rparr>"
      using res unfolding add_by_name_open_failed[OF failed] by simp_all
    then show ?thesis using inv by (simp add: owned_after_def)
  next
    case full
    have "g' = g" "w' = w\<lparr>n_open := Suc (n_open w), trace := trace w @ [Open ?p ?r, Close ?r]\<rparr>"
      using res unfolding add_by_name_full[OF full] by simp_all
    then show ?thesis using inv fresh notin by (simp add: owned_after_def)
  next
    case added
    have g': "g' = g\<lparr>led_fds := (led_fds g)[count g := ?r], count := count g + 1\<rparr>"
      and w': "w' = w\<lparr>fd_table := ?r # fd_table w, n_open := Suc (n_open w),
                       trace := trace w @ [Open ?p ?r]\<rparr>"
      using res unfolding add_by_name_added[OF added] by simp_all
    have m: "members g' = members g @ [?r]" "wf_group g'"
      unfolding g' by (rule members_added[OF inv(1) added(2)])+
    have "owned_after (L \<union> set (members g)) [Open ?p ?r] = Some (L \<union> set (members g'))"
      using fresh notin by (simp add: owned_after_def m)
    moreover have "distinct (members g')" "L \<inter> set (members g') = {}"
      "L \<union> set (members g') \<subseteq> set (fd_table w')"
      using inv notin by (auto simp: m w')
    ultimately show ?thesis using m(2) by (simp add: w')
  qed
qed

lemma add_leds_inv:
  assumes "wf_group g" "distinct (members g)" "L \<inter> set (members g) = {}"
      "L \<union> set (members g) \<subseteq> set (fd_table w)"
    and "add_leds e g as w = (ok, g', w')"
  shows "\<exists>es. trace w' = trace w @ es
           \<and> owned_after (L \<union> set (members g)) es = Some (L \<union> set (members g'))
           \<and> wf_group g' \<and> distinct (members g') \<and> L \<inter> set (members g') = {}"
  using assms
proof (induction as arbitrary: g w)
  case Nil
  then show ?case by (simp add: owned_after_def)
next
  case (Cons a as)
  obtain ok1 g1 w1 where r1: "add_led_by_name_to_led_group e g a w = (ok1, g1, w1)"
    by (metis prod_cases3)
  obtain es1 where es1: "trace w1 = trace w @ es1"
      "owned_after (L \<union> set (members g)) es1 = Some (L \<union> set (members g1))"
      "wf_group g1" "distinct (members g1)" "L \<inter> set (members g1) = {}"
      "L \<union> set (members g1) \<subseteq> set (fd_table w1)"
    using add_by_name_inv[OF Cons.prems(1-4) r1] by blast
  show ?case
  proof (cases ok1)
    case False
    then have "g' = g1" 
      "w' = fprintf_stderr (''failed to add LED '' @ a @ '' to group\<newline>'') w1"
      using Cons.prems(5) r1 by simp_all
    then have "trace w' = trace w @ (es1 @ [Stderr (''failed to add LED '' @ a @ '' to group\<newline>'')])"
      using es1(1) by (simp add: fprintf_stderr_def)
    moreover have "owned_after (L \<union> set (members g))
         (es1 @ [Stderr (''failed to add LED '' @ a @ '' to group\<newline>'')]) = Some (L \<union> set (members g1))"
      by (simp add: owned_after_append es1(2)) (simp add: owned_after_def)
    ultimately show ?thesis using es1 \<open>g' = g1\<close> by blast
  next
    case True
    then have "add_leds e g1 as w1 = (ok, g', w')" using Cons.prems(5) r1 by simp
    from Cons.IH[OF es1(3-6) this] obtain es2 where es2: "trace w' = trace w1 @ es2"
      "owned_after (L \<union> set (members g1)) es2 = Some (L \<union> set (members g'))"
      "wf_group g'" "distinct (members g')" "L \<inter> set (members g') = {}"
      by blast
    have "trace w' = trace w @ (es1 @ es2)" using es1(1) es2(1) by simp
    moreover have "owned_after (L \<union> set (members g)) (es1 @ es2) = Some (L \<union> set (members g'))"
      by (simp add: owned_after_append es1(2) es2(2))
    ultimately show ?thesis using es2 by blast
  qed
qed

subsection \<open>Creating the leader\<close>

lemma leader_open_failed:
  assumes "\<not> open_ok e (n_open w) ''/dev/uleds''"
  shows "create_led_group_leader e a w =
           (-1, w\<lparr>n_open := Suc (n_open w),
                   trace := trace w @ [Open ''/dev/uleds'' (-1),
                                       Perror ''Failed to create LED group leader'']\<rparr>)"
  using assms by (simp add: create_led_group_leader_def sys_open_failed perror_def)

lemma leader_registration_failed:
  assumes "open_ok e (n_open w) ''/dev/uleds''" and "write_ret e (n_write w) = -1"
  shows "create_led_group_leader e a w =
           (-1, w\<lparr>n_open := Suc (n_open w), n_write := Suc (n_write w),
                   trace := trace w @
                     [Open ''/dev/uleds'' (lowest_free (fd_table w)),
                      Write_dev (lowest_free (fd_table w))
                        \<lparr>dev_name = strlcpy a LED_MAX_NAME_SIZE, dev_max_brightness = max_brightness\<rparr>,
                      Perror ''Failed to create LED group leader'',
                      Close (lowest_free (fd_table w))]\<rparr>)"
  using assms lowest_free_nonneg[of "fd_table w"] lowest_free_fresh[of "fd_table w"]
  by (simp add: create_led_group_leader_def sys_open_ok sys_write_dev_def perror_def sys_close_def)

lemma leader_created:
  assumes "open_ok e (n_open w) ''/dev/uleds''" and "write_ret e (n_write w) \<noteq> -1"
  shows "create_led_group_leader e a w =
           (lowest_free (fd_table w),
            w\<lparr>fd_table := lowest_free (fd_table w) # fd_table w,
              n_open := Suc (n_open w), n_write := Suc (n_write w),
              trace := trace w @
                     [Open ''/dev/uleds'' (lowest_free (fd_table w)),
                      Write_dev (lowest_free (fd_table w))
                        \<lparr>dev_name = strlcpy a LED_MAX_NAME_SIZE, dev_max_brightness = max_brightness\<rparr>]\<rparr>)"
  using assms lowest_free_nonneg[of "fd_table w"]
  by (simp add: create_led_group_leader_def sys_open_ok sys_write_dev_def)

subsection \<open>The paths of main\<close>

lemma new_events_append: "trace w' = trace w @ es \<Longrightarrow> new_events w w' = es"
  by (simp add: new_events_def)

lemma wf_group_initial: "wf_group \<lparr>count = 0, led_fds = replicate MAX_LEDS_IN_GROUP 0\<rparr>"
  and members_initial: "members \<lparr>count = 0, led_fds = replicate MAX_LEDS_IN_GROUP 0\<rparr> = []"
  by (simp_all add: wf_group_def members_def)

lemma main_done_trace:
  assumes "wf_group g"
  shows "trace (main_done f g w) = trace w @ (if 0 \<le> f then [Close f] else []) @ map Close (members g)"
  by (simp add: main_done_def close_led_group_leds_eq[OF assms] sys_close_def)

lemma main_usage:
  assumes "length argv < 4"
  shows "main e argv w =
     (Some EXIT_FAILURE,
      w\<lparr>trace := trace w @ [Stderr (''format: '' @ (if argv = [] then ''(null)'' else hd argv)
                                  @ '' <group_name> <led 1> <led 2> ...\<newline>'')]\<rparr>)"
  using assms
  by (simp add: main_def main_done_def close_led_group_leds_def fprintf_stderr_def)

lemma main_no_leader:
  assumes "4 \<le> length argv" and "create_led_group_leader e (argv ! 1) w = (-1, w1)"
  shows "main e argv w =
     (Some EXIT_FAILURE, w1\<lparr>trace := trace w1 @ [Perror ''Failed to open /dev/uleds'']\<rparr>)"
  using assms
  by (simp add: main_def main_done_def close_led_group_leds_def perror_def)

lemma main_add_failed:
  assumes "4 \<le> length argv" and "create_led_group_leader e (argv ! 1) w = (f, w1)" and "f \<noteq> -1"
    and "add_leds e \<lparr>count = 0, led_fds = replicate MAX_LEDS_IN_GROUP 0\<rparr> (drop 2 argv) w1
           = (False, g, w2)"
  shows "main e argv w = (Some EXIT_FAILURE, main_done f g w2)"
  using assms by (simp add: main_def)

lemma main_loop:
  assumes "4 \<le> length argv" and "create_led_group_leader e (argv ! 1) w = (f, w1)" and "f \<noteq> -1"
    and "add_leds e \<lparr>count = 0, led_fds = replicate MAX_LEDS_IN_GROUP 0\<rparr> (drop 2 argv) w1
           = (True, g, w2)"
    and "track_led_brightness e f g (reads e) w2 = (st, w3)"
  shows "main e argv w = (case st of STOPPED \<Rightarrow> (Some EXIT_SUCCESS, main_done f g w3)
                                   | RUNNING \<Rightarrow> (None, w3))"
  using assms by (cases st) (simp_all add: main_def)

subsection \<open>Release of the handles\<close>

lemma owned_after_track:
  assumes "wf_group g"
  shows "\<exists>es. trace (snd (track_led_brightness e f g rs w)) = trace w @ es
            \<and> owned_after H es = Some H"
proof -
  obtain es where es: "trace (snd (track_led_brightness e f g rs w)) = trace w @ es"
     "syscalls es = concat (map (\<lambda>v. Read f # write_all_spec g v) (accepted rs))
                            @ (if Read_error \<in> set rs then [Read f] else [])"
    using track_trace[OF assms, of e f rs w] by blast
  have "owned_after H es = owned_after H (syscalls es)" by (rule owned_after_syscalls)
  also have "\<dots> = owned_after H (if Read_error \<in> set rs then [Read f] else [])"
    unfolding es(2) by (rule owned_after_mirror)
  also have "\<dots> = Some H" by (simp add: owned_after_def)
  finally show ?thesis using es(1) by blast
qed

lemma teardown_balanced:
  assumes tr: "trace w2 = trace w @ es"
    and own: "owned_after {} es = Some (insert f (set (members g)))"
    and g: "wf_group g" "distinct (members g)" "f \<notin> set (members g)" "0 \<le> f"
  shows "closed_exactly_once (new_events w (main_done f g w2))"
proof -
  have "trace (main_done f g w2) = trace w @ (es @ [Close f] @ map Close (members g))"
    using g(4) by (simp add: main_done_trace[OF g(1)] tr)
  then have ev: "new_events w (main_done f g w2) = es @ [Close f] @ map Close (members g)"
    by (rule new_events_append)
  have "owned_after (insert f (set (members g))) ([Close f] @ map Close (members g))
          = owned_after (set (members g)) (map Close (members g))"
    using g(3) by (simp add: owned_after_append) (simp add: owned_after_def)
  also have "\<dots> = Some (set (members g) - set (members g))"
    using g(2) by (intro owned_after_closes) simp_all
  finally have "owned_after {} (es @ [Close f] @ map Close (members g)) = Some {}"
    by (simp add: owned_after_append[of _ es] own)
  then show ?thesis by (simp add: closed_exactly_once_def ev)
qed

text \<open>
  C3. On every path on which \<open>main\<close> returns (missing arguments, the leader not created,
  whether \<open>open\<close> or the registration write failed, a follower not added, the loop left),
  every handle that was opened has been closed exactly once.
\<close>

theorem main_closes_every_handle_once:
  assumes "fst (main e argv w) \<noteq> None"
  shows "closed_exactly_once (new_events w (snd (main e argv w)))"
proof (cases "length argv < 4")
  case True
  show ?thesis
    unfolding main_usage[OF True]
    by (simp add: new_events_def closed_exactly_once_def owned_after_def)
next
  case False
  then have len: "4 \<le> length argv" by simp
  let ?r = "lowest_free (fd_table w)"
  have r: "0 \<le> ?r" by (rule lowest_free_nonneg)
  consider (no_open) "\<not> open_ok e (n_open w) ''/dev/uleds''"
    | (no_reg) "open_ok e (n_open w) ''/dev/uleds''" "write_ret e (n_write w) = -1"
    | (created) "open_ok e (n_open w) ''/dev/uleds''" "write_ret e (n_write w) \<noteq> -1"
    by blast
  then show ?thesis
  proof cases
    case no_open
    show ?thesis
      unfolding main_no_leader[OF len leader_open_failed[OF no_open]]
      by (simp add: new_events_def closed_exactly_once_def owned_after_def)
  next
    case no_reg
    show ?thesis
      unfolding main_no_leader[OF len leader_registration_failed[OF no_reg]]
      using r by (simp add: new_events_def closed_exactly_once_def owned_after_def)
  next
    case created
    define w1 where "w1 = w\<lparr>fd_table := ?r # fd_table w,
              n_open := Suc (n_open w), n_write := Suc (n_write w),
              trace := trace w @
                     [Open ''/dev/uleds'' ?r,
                      Write_dev ?r \<lparr>dev_name = strlcpy (argv ! 1) LED_MAX_NAME_SIZE,
                                    dev_max_brightness = max_brightness\<rparr>]\<rparr>"
    have cr: "create_led_group_leader e (argv ! 1) w = (?r, w1)"
      unfolding w1_def by (rule leader_created[OF created])
    have ne: "?r \<noteq> -1" using r by simp
    let ?g0 = "\<lparr>count = 0, led_fds = replicate MAX_LEDS_IN_GROUP 0\<rparr>"
    obtain ok g w2 where add: "add_leds e ?g0 (drop 2 argv) w1 = (ok, g, w2)"
      by (metis prod_cases3)
    have "\<exists>es. trace w2 = trace w1 @ es
           \<and> owned_after ({?r} \<union> set (members ?g0)) es = Some ({?r} \<union> set (members g))
           \<and> wf_group g \<and> distinct (members g) \<and> {?r} \<inter> set (members g) = {}"
      by (rule add_leds_inv[OF wf_group_initial _ _ _ add])
         (simp_all add: members_initial w1_def)
    then obtain es where es: "trace w2 = trace w1 @ es"
        "owned_after {?r} es = Some (insert ?r (set (members g)))"
        "wf_group g" "distinct (members g)" "?r \<notin> set (members g)"
      by (auto simp: members_initial)
    let ?pre = "[Open ''/dev/uleds'' ?r,
                 Write_dev ?r \<lparr>dev_name = strlcpy (argv ! 1) LED_MAX_NAME_SIZE,
                               dev_max_brightness = max_brightness\<rparr>]"
    have pre: "owned_after {} ?pre = Some {?r}" using r by (simp add: owned_after_def)
    have tr2: "trace w2 = trace w @ (?pre @ es)" using es(1) by (simp add: w1_def)
    have own2: "owned_after {} (?pre @ es) = Some (insert ?r (set (members g)))"
      by (simp only: owned_after_append[of _ ?pre] pre option.case es(2))
    show ?thesis
    proof (cases ok)
      case False
      have "main e argv w = (Some EXIT_FAILURE, main_done ?r g w2)"
        using add False by (intro main_add_failed[OF len cr ne]) simp
      then show ?thesis
        using teardown_balanced[OF tr2 own2 es(3,4,5) r] by simp
    next
      case True
      obtain st w3 where trk: "track_led_brightness e ?r g (reads e) w2 = (st, w3)"
        by (metis surj_pair)
      have m: "main e argv w = (case st of STOPPED \<Rightarrow> (Some EXIT_SUCCESS, main_done ?r g w3)
                                   | RUNNING \<Rightarrow> (None, w3))"
        using add True by (intro main_loop[OF len cr ne _ trk]) simp
      then have st: "st = STOPPED" using assms by (cases st) simp_all
      obtain es3 where es3: "trace w3 = trace w2 @ es3"
          "owned_after (insert ?r (set (members g))) es3 = Some (insert ?r (set (members g)))"
        using owned_after_track[OF es(3), of e ?r "reads e" w2] trk by auto
      have tr3: "trace w3 = trace w @ ((?pre @ es) @ es3)" using es3(1) tr2 by simp
      have own3: "owned_after {} ((?pre @ es) @ es3) = Some (insert ?r (set (members g)))"
        by (simp only: owned_after_append[of _ "?pre @ es"] own2 option.case es3(2))
      show ?thesis
        using teardown_balanced[OF tr3 own3 es(3,4,5) r] m st by simp
    qed
  qed
qed

theorem main_closes_every_handle_once_witness:
  "(fst (main (scenario [] [] []) [''led_group'', ''panel'', ''led0''] boot) \<noteq> None
    \<and> closed_exactly_once (new_events boot
          (snd (main (scenario [] [] []) [''led_group'', ''panel'', ''led0''] boot))))
 \<and> (fst (main (scenario [''/dev/uleds''] [] []) [''led_group'', ''panel'', ''led0'', ''led1''] boot) \<noteq> None
    \<and> closed_exactly_once (new_events boot
          (snd (main (scenario [''/dev/uleds''] [] []) [''led_group'', ''panel'', ''led0'', ''led1''] boot))))
 \<and> (fst (main (scenario [] [0] []) [''led_group'', ''panel'', ''led0'', ''led1''] boot) \<noteq> None
    \<and> closed_exactly_once (new_events boot
          (snd (main (scenario [] [0] []) [''led_group'', ''panel'', ''led0'', ''led1''] boot))))
 \<and> (fst (main (scenario [''/sys/class/leds/led1/brightness''] [] [])
            [''led_group'', ''panel'', ''led0'', ''led1''] boot) \<noteq> None
    \<and> closed_exactly_once (new_events boot
          (snd (main (scenario [''/sys/class/leds/led1/brightness''] [] [])
            [''led_group'', ''panel'', ''led0'', ''led1''] boot))))
 \<and> (fst (main (scenario [] [] []) [''led_group'', ''panel'', ''a'', ''b'', ''c'', ''d'', ''e''] boot) \<noteq> None
    \<and> closed_exactly_once (new_events boot
          (snd (main (scenario [] [] []) [''led_group'', ''panel'', ''a'', ''b'', ''c'', ''d'', ''e''] boot))))
 \<and> (fst (main (scenario [] [] [Read_bytes 4 75, Read_error])
            [''led_group'', ''panel'', ''led0'', ''led1''] boot) \<noteq> None
    \<and> closed_exactly_once (new_events boot
          (snd (main (scenario [] [] [Read_bytes 4 75, Read_error])
            [''led_group'', ''panel'', ''led0'', ''led1''] boot))))"
proof -
  have h1: "fst (main (scenario [] [] []) [''led_group'', ''panel'', ''led0''] boot) \<noteq> None"
    by code_simp
  have h2: "fst (main (scenario [''/dev/uleds''] [] []) [''led_group'', ''panel'', ''led0'', ''led1''] boot) \<noteq> None"
    by code_simp
  have h3: "fst (main (scenario [] [0] []) [''led_group'', ''panel'', ''led0'', ''led1''] boot) \<noteq> None"
    by code_simp
  have h4: "fst (main (scenario [''/sys/class/leds/led1/brightness''] [] [])
            [''led_group'', ''panel'', ''led0'', ''led1''] boot) \<noteq> None"
    by code_simp
  have h5: "fst (main (scenario [] [] []) [''led_group'', ''panel'', ''a'', ''b'', ''c'', ''d'', ''e''] boot) \<noteq> None"
    by code_simp
  have h6: "fst (main (scenario [] [] [Read_bytes 4 75, Read_error])
            [''led_group'', ''panel'', ''led0'', ''led1''] boot) \<noteq> None"
    by code_simp
  show ?thesis
    using h1 h2 h3 h4 h5 h6
      main_closes_every_handle_once[OF h1] main_closes_every_handle_once[OF h2]
      main_closes_every_handle_once[OF h3] main_closes_every_handle_once[OF h4]
      main_closes_every_handle_once[OF h5] main_closes_every_handle_once[OF h6]
    by blast
qed

subsection \<open>Propagation\<close>

lemma writes_append: "writes (es @ es') = writes es @ writes es'"
  by (induction es rule: writes.induct) simp_all

lemma writes_syscalls: "writes (syscalls es) = writes es"
  unfolding syscalls_def by (induction es rule: writes.induct) simp_all

lemma writes_write_all_spec:
  "writes (write_all_spec g v) = map (\<lambda>m. (m, dec_int (sint v) @ ''\<newline>'')) (members g)"
proof -
  have "writes (concat (map (\<lambda>f. [Lseek f 0, Write f t]) ms)) = map (\<lambda>m. (m, t)) ms" for ms t
    by (induction ms) simp_all
  then show ?thesis by (simp add: write_all_spec_def)
qed

lemma track_syscalls:
  assumes "wf_group g"
  shows "syscalls (new_events w (snd (track_led_brightness e f g rs w)))
          = concat (map (\<lambda>v. Read f # write_all_spec g v) (accepted rs))
            @ (if Read_error \<in> set rs then [Read f] else [])"
  using track_trace[OF assms, of e f rs w] by (auto simp: new_events_def)

lemma accepted_all: "accepted (map (\<lambda>(n, v). Read_bytes n v) nvs) = map snd nvs"
  by (induction nvs) auto

lemma no_error_all: "Read_error \<notin> set (map (\<lambda>(n, v). Read_bytes n v) nvs)"
  by auto

text \<open>
  C1. The system calls of the loop are, for every value \<open>v\<close> taken from a read, that read
  followed by the fan-out of \<open>v\<close> itself over the whole group: for each member, in order,
  a seek to offset 0 and a write of the decimal text of \<open>v\<close> and a newline.
\<close>

theorem loop_fans_out_each_value:
  assumes "wf_group g"
  shows "syscalls (new_events w (update_led_group e g v w)) = write_all_spec g v
       \<and> syscalls (new_events w (snd (track_led_brightness e f g rs w)))
          = concat (map (\<lambda>v. Read f # write_all_spec g v) (accepted rs))
            @ (if Read_error \<in> set rs then [Read f] else [])"
  using update_led_group_trace[OF assms, of e v w] track_syscalls[OF assms]
  by (auto simp: new_events_def)

theorem loop_fans_out_each_value_witness:
  "wf_group two_leds
   \<and> syscalls (new_events boot (update_led_group (scenario [] [] []) two_leds 42 boot))
       = [Lseek 4 0, Write 4 ''42\<newline>'', Lseek 5 0, Write 5 ''42\<newline>'']
   \<and> syscalls (new_events boot (snd (track_led_brightness (scenario [] [] []) 3 two_leds
                                        [Read_bytes 4 42, Read_bytes 4 0] boot)))
       = [Read 3, Lseek 4 0, Write 4 ''42\<newline>'', Lseek 5 0, Write 5 ''42\<newline>'',
          Read 3, Lseek 4 0, Write 4 ''0\<newline>'', Lseek 5 0, Write 5 ''0\<newline>'']"
proof -
  have h: "wf_group two_leds" by (simp add: wf_group_def two_leds_def MAX_LEDS_IN_GROUP_def)
  show ?thesis
    using h loop_fans_out_each_value[OF h, of boot "scenario [] [] []" 42 3
              "[Read_bytes 4 42, Read_bytes 4 0]"]
    by (simp add: write_all_spec_def members_def two_leds_def dec_int_def dec_nat.simps
          digit_char_def)
qed

lemma track_writes:
  assumes "wf_group g"
  shows "writes (new_events w (snd (track_led_brightness e f g rs w)))
          = concat (map (\<lambda>v. map (\<lambda>m. (m, dec_int (sint v) @ ''\<newline>'')) (members g)) (accepted rs))"
proof -
  have "writes (concat (map (\<lambda>v. Read f # write_all_spec g v) vs))
          = concat (map (\<lambda>v. map (\<lambda>m. (m, dec_int (sint v) @ ''\<newline>'')) (members g)) vs)" for vs
    by (induction vs) (simp_all add: writes_append writes_write_all_spec)
  then have "writes (syscalls (new_events w (snd (track_led_brightness e f g rs w))))
          = concat (map (\<lambda>v. map (\<lambda>m. (m, dec_int (sint v) @ ''\<newline>'')) (members g)) (accepted rs))"
    unfolding track_syscalls[OF assms] by (simp add: writes_append)
  then show ?thesis by (simp only: writes_syscalls)
qed

text \<open>
  C4, as the code has it. The loop is \<open>STOPPED\<close> exactly when one of the reads returned
  \<open>-1\<close>; a read that returns a byte count, \<open>0\<close> for end of stream included, keeps it
  running. Whatever the values of reads that return a byte count, the loop is still
  \<open>RUNNING\<close> after them and has written the text of each value to every member: no value
  is compared with \<open>max_brightness\<close>.
\<close>

theorem loop_stops_on_read_error_only:
  "(fst (track_led_brightness e f g rs w) = STOPPED) = (-1 \<in> set (map read_ret rs))
   \<and> (wf_group g \<longrightarrow>
        fst (track_led_brightness e f g (map (\<lambda>(n, v). Read_bytes n v) nvs) w) = RUNNING
        \<and> writes (new_events w (snd (track_led_brightness e f g
                                        (map (\<lambda>(n, v). Read_bytes n v) nvs) w)))
            = concat (map (\<lambda>(n, v). map (\<lambda>m. (m, dec_int (sint v) @ ''\<newline>'')) (members g)) nvs))"
proof -
  have "(-1 \<in> set (map read_ret rs)) = (Read_error \<in> set rs)"
  proof
    assume "-1 \<in> set (map read_ret rs)"
    then obtain r where "r \<in> set rs" "read_ret r = -1" by auto
    then show "Read_error \<in> set rs" by (simp add: read_ret_error)
  next
    assume "Read_error \<in> set rs"
    moreover have "read_ret Read_error = -1" by (simp add: read_ret_def)
    ultimately show "-1 \<in> set (map read_ret rs)" by force
  qed
  then have a: "(fst (track_led_brightness e f g rs w) = STOPPED) = (-1 \<in> set (map read_ret rs))"
    by (simp add: track_state)
  have b: "fst (track_led_brightness e f g (map (\<lambda>(n, v). Read_bytes n v) nvs) w) = RUNNING"
    unfolding track_state using no_error_all[of nvs] by simp
  have c: "concat (map (\<lambda>v. map (\<lambda>m. (m, dec_int (sint v) @ ''\<newline>'')) (members g)) (map snd nvs))
         = concat (map (\<lambda>(n, v). map (\<lambda>m. (m, dec_int (sint v) @ ''\<newline>'')) (members g)) nvs)"
    by (simp add: comp_def case_prod_unfold)
  show ?thesis using a b c by (simp add: track_writes accepted_all)
qed

theorem loop_stops_on_read_error_only_witness:
  "wf_group two_leds
   \<and> fst (track_led_brightness (scenario [] [] []) 3 two_leds
            (map (\<lambda>(n, v). Read_bytes n v) [(4, 101), (4, -1)]) boot) = RUNNING
   \<and> writes (new_events boot (snd (track_led_brightness (scenario [] [] []) 3 two_leds
            (map (\<lambda>(n, v). Read_bytes n v) [(4, 101), (4, -1)]) boot)))
       = [(4, ''101\<newline>''), (5, ''101\<newline>''), (4, ''-1\<newline>''), (5, ''-1\<newline>'')]
   \<and> fst (track_led_brightness (scenario [] [] []) 3 two_leds [Read_bytes 4 101, Read_error] boot)
       = STOPPED"
proof -
  have h: "wf_group two_leds" by (simp add: wf_group_def two_leds_def MAX_LEDS_IN_GROUP_def)
  have s: "dec_int 101 = ''101''" "dec_int (-1) = ''-1''"
    by (simp_all add: dec_int_def dec_nat.simps digit_char_def)
  have m: "members two_leds = [4, 5]" by (simp add: members_def two_leds_def)
  show ?thesis
    using h loop_stops_on_read_error_only[of "scenario [] [] []" 3 two_leds
              "[Read_bytes 4 101, Read_error]" boot "[(4, 101), (4, -1)]"]
    by (simp add: s m read_ret_def)
qed

text \<open>
  The claim C4 as stated fails: a read that returns 0, the end of the stream, does not
  stop the loop.
\<close>

theorem end_of_stream_keeps_running:
  "read_ret (Read_bytes 0 0) = 0
   \<and> fst (track_led_brightness (scenario [] [] []) 3 two_leds [Read_bytes 0 0] boot) = RUNNING"
  by (simp add: read_ret_def)

subsection \<open>Failed writes\<close>

lemma track_exact:
  assumes g: "wf_group g"
  shows "trace (snd (track_led_brightness e f g rs w)) = trace w @ mirror_trace e f g rs (n_write w)"
proof (induction rs arbitrary: w)
  case Nil
  show ?case by simp
next
  case (Cons r rs)
  show ?case
  proof (cases r)
    case Read_error
    then show ?thesis by (simp add: read_ret_def perror_def)
  next
    case (Read_bytes k v)
    define w1 where "w1 = w\<lparr>trace := trace w @ [Read f]\<rparr>"
    define w2 where "w2 = update_led_group e g v w1"
    have w2: "trace w2 = trace w @ Read f # fan_out_trace e g v (n_write w)"
      "n_write w2 = n_write w + count g"
      unfolding w2_def update_led_group_eq[OF g] by (simp_all add: w1_def fan_out_trace_def)
    have step: "track_led_brightness e f g (r # rs) w = track_led_brightness e f g rs w2"
      using Read_bytes by (simp add: read_ret_def w1_def w2_def)
    show ?thesis
      unfolding step Cons.IH[of w2] w2 using Read_bytes by simp
  qed
qed

text \<open>
  C5. Whatever the writes return, the fan-out seeks and writes on every member, in order,
  and a write that fails is followed by a report on standard error and then by the seek
  and the write on the next member. Under every kernel, those with failing writes
  included, the loop stops only at a failed read, its events are exactly those of
  \<open>mirror_trace\<close>, and it writes the text of every value it has read to every member: a
  failed write neither stops the loop nor keeps later values from being read and written.
\<close>

theorem failed_write_is_reported_and_skipped:
  assumes "wf_group g"
  shows "new_events w (update_led_group e g v w)
           = concat (map (\<lambda>(k, m). [Lseek m 0, Write m (dec_int (sint v) @ ''\<newline>'')]
                            @ (if write_ret e k < 0
                               then [Perror ''failed to write to group LED''] else []))
                         (enumerate (n_write w) (members g)))
       \<and> fst (track_led_brightness e f g rs w)
           = (if Read_error \<in> set rs then STOPPED else RUNNING)
       \<and> new_events w (snd (track_led_brightness e f g rs w))
           = mirror_trace e f g rs (n_write w)
       \<and> writes (new_events w (snd (track_led_brightness e f g rs w)))
           = concat (map (\<lambda>v. map (\<lambda>m. (m, dec_int (sint v) @ ''\<newline>'')) (members g))
                         (accepted rs))"
proof -
  have "new_events w (update_led_group e g v w)
           = concat (map (\<lambda>(k, m). [Lseek m 0, Write m (dec_int (sint v) @ ''\<newline>'')]
                            @ (if write_ret e k < 0
                               then [Perror ''failed to write to group LED''] else []))
                         (enumerate (n_write w) (members g)))"
    by (simp add: update_led_group_eq[OF assms] new_events_def)
  moreover have "new_events w (snd (track_led_brightness e f g rs w))
           = mirror_trace e f g rs (n_write w)"
    by (rule new_events_append[OF track_exact[OF assms]])
  moreover note track_state[of e f g rs w] track_writes[OF assms, of w e f rs]
  ultimately show ?thesis by blast
qed

theorem failed_write_is_reported_and_skipped_witness:
  "wf_group two_leds
   \<and> write_ret (scenario [] [0] []) 0 < 0
   \<and> new_events boot (update_led_group (scenario [] [0] []) two_leds 42 boot)
       = [Lseek 4 0, Write 4 ''42\<newline>'', Perror ''failed to write to group LED'',
          Lseek 5 0, Write 5 ''42\<newline>'']
   \<and> fst (track_led_brightness (scenario [] [0] []) 3 two_leds [Read_bytes 4 42, Read_bytes 4 7] boot)
       = RUNNING
   \<and> new_events boot (snd (track_led_brightness (scenario [] [0] []) 3 two_leds
                              [Read_bytes 4 42, Read_bytes 4 7] boot))
       = [Read 3, Lseek 4 0, Write 4 ''42\<newline>'', Perror ''failed to write to group LED'',
          Lseek 5 0, Write 5 ''42\<newline>'',
          Read 3, Lseek 4 0, Write 4 ''7\<newline>'', Lseek 5 0, Write 5 ''7\<newline>'']
   \<and> writes (new_events boot (snd (track_led_brightness (scenario [] [0] []) 3 two_leds
                              [Read_bytes 4 42, Read_bytes 4 7] boot)))
       = [(4, ''42\<newline>''), (5, ''42\<newline>''), (4, ''7\<newline>''), (5, ''7\<newline>'')]"
proof -
  have h: "wf_group two_leds" by (simp add: wf_group_def two_leds_def MAX_LEDS_IN_GROUP_def)
  have s: "dec_int 42 = ''42''" "dec_int 7 = ''7''"
    by (simp_all add: dec_int_def dec_nat.simps digit_char_def)
  have m: "members two_leds = [4, 5]" "count two_leds = 2" by (simp_all add: members_def two_leds_def)
  have b: "n_write boot = 0" by (simp add: boot_def)
  have e: "write_ret (scenario [] [0] []) 0 < 0"
    "\<And>n. write_ret (scenario [] [0] []) (Suc n) < 0 = False"
    by (simp_all add: scenario_def)
  note t = failed_write_is_reported_and_skipped[OF h, of boot "scenario [] [0] []" 42 3
              "[Read_bytes 4 42, Read_bytes 4 7]"]
  have t1: "new_events boot (update_led_group (scenario [] [0] []) two_leds 42 boot)
       = [Lseek 4 0, Write 4 ''42\<newline>'', Perror ''failed to write to group LED'',
          Lseek 5 0, Write 5 ''42\<newline>'']"
    using t by (simp add: s m b e)
  have t3: "new_events boot (snd (track_led_brightness (scenario [] [0] []) 3 two_leds
                              [Read_bytes 4 42, Read_bytes 4 7] boot))
       = [Read 3, Lseek 4 0, Write 4 ''42\<newline>'', Perror ''failed to write to group LED'',
          Lseek 5 0, Write 5 ''42\<newline>'',
          Read 3, Lseek 4 0, Write 4 ''7\<newline>'', Lseek 5 0, Write 5 ''7\<newline>'']"
    using conjunct1[OF conjunct2[OF conjunct2[OF t]]]
    by (simp add: fan_out_trace_def s m b e numeral_2_eq_2 numeral_3_eq_3)
  have t4: "writes (new_events boot (snd (track_led_brightness (scenario [] [0] []) 3 two_leds
                              [Read_bytes 4 42, Read_bytes 4 7] boot)))
       = [(4, ''42\<newline>''), (5, ''42\<newline>''), (4, ''7\<newline>''), (5, ''7\<newline>'')]"
    using conjunct2[OF conjunct2[OF conjunct2[OF t]]] by (simp add: s m)
  have t2: "fst (track_led_brightness (scenario [] [0] []) 3 two_leds [Read_bytes 4 42, Read_bytes 4 7] boot)
       = RUNNING"
    using conjunct1[OF conjunct2[OF t]] by simp
  show ?thesis using h e(1) t1 t2 t3 t4 by blast
qed

subsection \<open>A group that is full\<close>

text \<open>
  C10. When the attribute file of the follower opens and the group is full, the add
  fails and the only events are the \<open>open\<close> and the \<open>close\<close> of the descriptor just
  returned: the descriptor table is as before.
\<close>

theorem failed_append_closes_the_new_handle:
  assumes "open_ok e (n_open w) (led_brightness_path a)" and "MAX_LEDS_IN_GROUP \<le> count g"
  shows "fst (add_led_by_name_to_led_group e g a w) = False
       \<and> new_events w (snd (snd (add_led_by_name_to_led_group e g a w)))
           = [Open (led_brightness_path a) (lowest_free (fd_table w)),
              Close (lowest_free (fd_table w))]
       \<and> 0 \<le> lowest_free (fd_table w)
       \<and> fd_table (snd (snd (add_led_by_name_to_led_group e g a w))) = fd_table w
       \<and> closed_exactly_once (new_events w (snd (snd (add_led_by_name_to_led_group e g a w))))"
  unfolding add_by_name_full[OF assms]
  using lowest_free_nonneg[of "fd_table w"]
  by (simp add: new_events_def closed_exactly_once_def owned_after_def)

theorem failed_append_closes_the_new_handle_witness:
  "open_ok (scenario [] [] []) (n_open world_of_four) (led_brightness_path ''led4'')
   \<and> MAX_LEDS_IN_GROUP \<le> count four_leds
   \<and> fst (add_led_by_name_to_led_group (scenario [] [] []) four_leds ''led4'' world_of_four) = False
   \<and> new_events world_of_four
        (snd (snd (add_led_by_name_to_led_group (scenario [] [] []) four_leds ''led4'' world_of_four)))
       = [Open ''/sys/class/leds/led4/brightness'' 8, Close 8]
   \<and> fd_table (snd (snd (add_led_by_name_to_led_group (scenario [] [] []) four_leds ''led4''
                            world_of_four))) = [7, 6, 5, 4, 3, 0, 1, 2]"
proof -
  have h1: "open_ok (scenario [] [] []) (n_open world_of_four) (led_brightness_path ''led4'')"
    by (simp add: scenario_def)
  have h2: "MAX_LEDS_IN_GROUP \<le> count four_leds"
    by (simp add: MAX_LEDS_IN_GROUP_def four_leds_def)
  have p: "led_brightness_path ''led4'' = ''/sys/class/leds/led4/brightness''"
    by (simp add: led_brightness_path_def snprintf_def LED_MAX_NAME_SIZE_def)
  have r: "lowest_free [7, 6, 5, 4, 3, 0, 1, 2] = 8"
    by (simp add: lowest_free_def)
  have t: "fd_table world_of_four = [7, 6, 5, 4, 3, 0, 1, 2]"
    by (simp add: world_of_four_def)
  show ?thesis
    using h1 h2 failed_append_closes_the_new_handle[OF h1 h2]
    by (simp only: p r t)
qed

text \<open>
  C2, as the code has it. Adding a follower to a full group fails and leaves the group as
  it was. The attribute file is opened first all the same: when that succeeds the
  descriptor is closed again, and the descriptor table is as before.
\<close>

theorem add_to_full_group_fails:
  assumes "MAX_LEDS_IN_GROUP \<le> count g"
  shows "fst (add_led_by_name_to_led_group e g a w) = False
       \<and> fst (snd (add_led_by_name_to_led_group e g a w)) = g
       \<and> fd_table (snd (snd (add_led_by_name_to_led_group e g a w))) = fd_table w
       \<and> new_events w (snd (snd (add_led_by_name_to_led_group e g a w)))
           = (if open_ok e (n_open w) (led_brightness_path a)
              then [Open (led_brightness_path a) (lowest_free (fd_table w)),
                    Close (lowest_free (fd_table w))]
              else [Open (led_brightness_path a) (-1)])"
proof (cases "open_ok e (n_open w) (led_brightness_path a)")
  case True
  show ?thesis
    unfolding add_by_name_full[OF True assms] using True by (simp add: new_events_def)
next
  case False
  show ?thesis
    unfolding add_by_name_open_failed[OF False] using False by (simp add: new_events_def)
qed

theorem add_to_full_group_fails_witness:
  "MAX_LEDS_IN_GROUP \<le> count four_leds
   \<and> fst (add_led_by_name_to_led_group (scenario [''/sys/class/leds/led4/brightness''] [] [])
            four_leds ''led4'' world_of_four) = False
   \<and> fst (snd (add_led_by_name_to_led_group (scenario [''/sys/class/leds/led4/brightness''] [] [])
            four_leds ''led4'' world_of_four)) = four_leds
   \<and> new_events world_of_four
        (snd (snd (add_led_by_name_to_led_group (scenario [''/sys/class/leds/led4/brightness''] [] [])
            four_leds ''led4'' world_of_four)))
       = [Open ''/sys/class/leds/led4/brightness'' (-1)]"
proof -
  have h: "MAX_LEDS_IN_GROUP \<le> count four_leds"
    by (simp add: MAX_LEDS_IN_GROUP_def four_leds_def)
  have p: "led_brightness_path ''led4'' = ''/sys/class/leds/led4/brightness''"
    by (simp add: led_brightness_path_def snprintf_def LED_MAX_NAME_SIZE_def)
  have o: "\<not> open_ok (scenario [''/sys/class/leds/led4/brightness''] [] []) (n_open world_of_four)
              ''/sys/class/leds/led4/brightness''"
    by (simp add: scenario_def)
  show ?thesis
    using h add_to_full_group_fails[OF h, of "scenario [''/sys/class/leds/led4/brightness''] [] []"
              "''led4''" world_of_four]
    by (simp only: p o if_False)
qed

text \<open>
  The claim C2 as stated fails: with four members in the group, the add opens a handle
  before it finds the group full.
\<close>

theorem add_to_full_group_opens_a_handle:
  "count four_leds = 4
   \<and> new_events world_of_four
        (snd (snd (add_led_by_name_to_led_group (scenario [] [] []) four_leds ''led4'' world_of_four)))
       = [Open ''/sys/class/leds/led4/brightness'' 8, Close 8]"
proof -
  have h1: "open_ok (scenario [] [] []) (n_open world_of_four) (led_brightness_path ''led4'')"
    by (simp add: scenario_def)
  have h2: "MAX_LEDS_IN_GROUP \<le> count four_leds"
    by (simp add: MAX_LEDS_IN_GROUP_def four_leds_def)
  have p: "led_brightness_path ''led4'' = ''/sys/class/leds/led4/brightness''"
    by (simp add: led_brightness_path_def snprintf_def LED_MAX_NAME_SIZE_def)
  have r: "lowest_free (fd_table world_of_four) = 8"
    by (simp add: lowest_free_def world_of_four_def)
  show ?thesis
    unfolding add_by_name_full[OF h1 h2] p r
    by (simp add: new_events_def four_leds_def)
qed

subsection \<open>Order of the followers\<close>




subsection \<open>The command line\<close>

lemma main_begins_with_open:
  assumes len: "4 \<le> length argv"
  shows "\<exists>es. new_events w (snd (main e argv w))
              = Open ''/dev/uleds'' (if open_ok e (n_open w) ''/dev/uleds''
                                     then lowest_free (fd_table w) else -1) # es"
proof -
  let ?r = "lowest_free (fd_table w)"
  have r: "0 \<le> ?r" by (rule lowest_free_nonneg)
  consider (no_open) "\<not> open_ok e (n_open w) ''/dev/uleds''"
    | (no_reg) "open_ok e (n_open w) ''/dev/uleds''" "write_ret e (n_write w) = -1"
    | (created) "open_ok e (n_open w) ''/dev/uleds''" "write_ret e (n_write w) \<noteq> -1"
    by blast
  then show ?thesis
  proof cases
    case no_open
    show ?thesis
      unfolding main_no_leader[OF len leader_open_failed[OF no_open]]
      using no_open by (simp add: new_events_def)
  next
    case no_reg
    show ?thesis
      unfolding main_no_leader[OF len leader_registration_failed[OF no_reg]]
      using no_reg by (simp add: new_events_def)
  next
    case created
    define w1 where "w1 = w\<lparr>fd_table := ?r # fd_table w,
              n_open := Suc (n_open w), n_write := Suc (n_write w),
              trace := trace w @
                     [Open ''/dev/uleds'' ?r,
                      Write_dev ?r \<lparr>dev_name = strlcpy (argv ! 1) LED_MAX_NAME_SIZE,
                                    dev_max_brightness = max_brightness\<rparr>]\<rparr>"
    have cr: "create_led_group_leader e (argv ! 1) w = (?r, w1)"
      unfolding w1_def by (rule leader_created[OF created])
    have ne: "?r \<noteq> -1" using r by simp
    let ?g0 = "\<lparr>count = 0, led_fds = replicate MAX_LEDS_IN_GROUP 0\<rparr>"
    obtain ok g w2 where add: "add_leds e ?g0 (drop 2 argv) w1 = (ok, g, w2)"
      by (metis prod_cases3)
    have "\<exists>es. trace w2 = trace w1 @ es
           \<and> owned_after ({?r} \<union> set (members ?g0)) es = Some ({?r} \<union> set (members g))
           \<and> wf_group g \<and> distinct (members g) \<and> {?r} \<inter> set (members g) = {}"
      by (rule add_leds_inv[OF wf_group_initial _ _ _ add])
         (simp_all add: members_initial w1_def)
    then obtain es where es: "trace w2 = trace w1 @ es" "wf_group g"
      by blast
    have tr2: "trace w2 = trace w @ Open ''/dev/uleds'' ?r
                 # Write_dev ?r \<lparr>dev_name = strlcpy (argv ! 1) LED_MAX_NAME_SIZE,
                                 dev_max_brightness = max_brightness\<rparr> # es"
      using es(1) by (simp add: w1_def)
    show ?thesis
    proof (cases ok)
      case False
      have "main e argv w = (Some EXIT_FAILURE, main_done ?r g w2)"
        using add False by (intro main_add_failed[OF len cr ne]) simp
      then show ?thesis
        using created(1) by (simp add: new_events_def main_done_trace[OF es(2)] tr2)
    next
      case True
      obtain st w3 where trk: "track_led_brightness e ?r g (reads e) w2 = (st, w3)"
        by (metis surj_pair)
      have m: "main e argv w = (case st of STOPPED \<Rightarrow> (Some EXIT_SUCCESS, main_done ?r g w3)
                                   | RUNNING \<Rightarrow> (None, w3))"
        using add True by (intro main_loop[OF len cr ne _ trk]) simp
      obtain es3 where es3: "trace w3 = trace w2 @ es3"
        using track_trace[OF es(2), of e ?r "reads e" w2] trk by auto
      show ?thesis
        using created(1)
        by (cases st) (simp_all add: m new_events_def main_done_trace[OF es(2)] tr2 es3)
    qed
  qed
qed

text \<open>
  C6, as the code has it. With fewer than three arguments after the program name,
  \<open>main\<close> prints the usage on standard error and returns \<open>EXIT_FAILURE\<close>, and does nothing
  else; with three or more (a leader and at least two followers), its first step is to
  open \<open>/dev/uleds\<close>.
\<close>

theorem usage_unless_leader_and_two_followers:
  "(length argv < 4 \<longrightarrow>
      fst (main e argv w) = Some EXIT_FAILURE \<and> EXIT_FAILURE \<noteq> 0
      \<and> new_events w (snd (main e argv w))
          = [Stderr (''format: '' @ (if argv = [] then ''(null)'' else hd argv)
                     @ '' <group_name> <led 1> <led 2> ...\<newline>'')])
   \<and> (4 \<le> length argv \<longrightarrow>
        take 1 (new_events w (snd (main e argv w)))
          = [Open ''/dev/uleds'' (if open_ok e (n_open w) ''/dev/uleds''
                                  then lowest_free (fd_table w) else -1)])"
proof (intro conjI impI)
  assume a: "length argv < 4"
  show "fst (main e argv w) = Some EXIT_FAILURE" "EXIT_FAILURE \<noteq> 0"
    "new_events w (snd (main e argv w))
          = [Stderr (''format: '' @ (if argv = [] then ''(null)'' else hd argv)
                     @ '' <group_name> <led 1> <led 2> ...\<newline>'')]"
    unfolding main_usage[OF a] by (simp_all add: new_events_def EXIT_FAILURE_def)
next
  assume "4 \<le> length argv"
  from main_begins_with_open[OF this, of w e]
  show "take 1 (new_events w (snd (main e argv w)))
          = [Open ''/dev/uleds'' (if open_ok e (n_open w) ''/dev/uleds''
                                  then lowest_free (fd_table w) else -1)]"
    by auto
qed

theorem usage_unless_leader_and_two_followers_witness:
  "length [''led_group'', ''panel''] < 4
   \<and> fst (main (scenario [] [] []) [''led_group'', ''panel''] boot) = Some EXIT_FAILURE
   \<and> new_events boot (snd (main (scenario [] [] []) [''led_group'', ''panel''] boot))
       = [Stderr ''format: led_group <group_name> <led 1> <led 2> ...\<newline>'']
   \<and> 4 \<le> length [''led_group'', ''panel'', ''led0'', ''led1'']
   \<and> take 1 (new_events boot
        (snd (main (scenario [] [] []) [''led_group'', ''panel'', ''led0'', ''led1''] boot)))
       = [Open ''/dev/uleds'' 3]"
proof -
  have h1: "length [''led_group'', ''panel''] < 4" by simp
  have h2: "4 \<le> length [''led_group'', ''panel'', ''led0'', ''led1'']" by simp
  have r: "lowest_free (fd_table boot) = 3" by (simp add: lowest_free_def boot_def)
  have o: "open_ok (scenario [] [] []) (n_open boot) ''/dev/uleds''" by (simp add: scenario_def)
  show ?thesis
    using usage_unless_leader_and_two_followers[of "[''led_group'', ''panel'']" "scenario [] [] []" boot]
      usage_unless_leader_and_two_followers[of "[''led_group'', ''panel'', ''led0'', ''led1'']"
        "scenario [] [] []" boot]
    by (simp add: r o)
qed

text \<open>
  The claim C6 as stated fails: with a leader name and one follower name, \<open>main\<close> prints
  the usage and returns 1, and opens nothing.
\<close>

theorem one_follower_is_refused:
  "main (scenario [] [] [Read_error]) [''led_group'', ''panel'', ''led0''] boot
     = (Some 1, boot\<lparr>trace := [Stderr ''format: led_group <group_name> <led 1> <led 2> ...\<newline>'']\<rparr>)"
proof -
  have h: "length [''led_group'', ''panel'', ''led0''] < 4" by simp
  show ?thesis
    unfolding main_usage[OF h] by (simp add: EXIT_FAILURE_def boot_def)
qed

subsection \<open>Exit code\<close>

lemma add_leds_ok:
  assumes "wf_group g"
  shows "fst (add_leds e g names w)
           = (count g + length names \<le> MAX_LEDS_IN_GROUP \<and> opens_ok e (n_open w) names)"
  using assms
proof (induction names arbitrary: g w)
  case Nil
  then show ?case by (simp add: wf_group_def)
next
  case (Cons a as)
  let ?p = "led_brightness_path a"
  consider (failed) "\<not> open_ok e (n_open w) ?p"
    | (full) "open_ok e (n_open w) ?p" "MAX_LEDS_IN_GROUP \<le> count g"
    | (added) "open_ok e (n_open w) ?p" "count g < MAX_LEDS_IN_GROUP"
    by fastforce
  then show ?case
  proof cases
    case failed
    then show ?thesis by (simp add: add_by_name_open_failed)
  next
    case full
    then show ?thesis by (simp add: add_by_name_full)
  next
    case added
    let ?g1 = "g\<lparr>led_fds := (led_fds g)[count g := lowest_free (fd_table w)], count := count g + 1\<rparr>"
    let ?w1 = "w\<lparr>fd_table := lowest_free (fd_table w) # fd_table w,
              n_open := Suc (n_open w),
              trace := trace w @ [Open ?p (lowest_free (fd_table w))]\<rparr>"
    have wf1: "wf_group ?g1" by (rule members_added(2)[OF Cons.prems added(2)])
    have "fst (add_leds e g (a # as) w) = fst (add_leds e ?g1 as ?w1)"
      by (simp add: add_by_name_added[OF added])
    also have "\<dots> = (count ?g1 + length as \<le> MAX_LEDS_IN_GROUP \<and> opens_ok e (n_open ?w1) as)"
      by (rule Cons.IH[OF wf1])
    finally show ?thesis using added(1) by simp
  qed
qed

lemma main_exit_code:
  "fst (main e argv w) =
     (if \<not> setup_succeeds e argv w then Some EXIT_FAILURE
      else if Read_error \<in> set (reads e) then Some EXIT_SUCCESS else None)"
proof (cases "length argv < 4")
  case True
  then show ?thesis by (simp add: main_usage setup_succeeds_def)
next
  case False
  then have len: "4 \<le> length argv" by simp
  let ?r = "lowest_free (fd_table w)"
  have r: "?r \<noteq> -1" using lowest_free_nonneg[of "fd_table w"] by simp
  consider (no_open) "\<not> open_ok e (n_open w) ''/dev/uleds''"
    | (no_reg) "open_ok e (n_open w) ''/dev/uleds''" "write_ret e (n_write w) = -1"
    | (created) "open_ok e (n_open w) ''/dev/uleds''" "write_ret e (n_write w) \<noteq> -1"
    by blast
  then show ?thesis
  proof cases
    case no_open
    then show ?thesis
      unfolding main_no_leader[OF len leader_open_failed[OF no_open]]
      by (simp add: setup_succeeds_def)
  next
    case no_reg
    then show ?thesis
      unfolding main_no_leader[OF len leader_registration_failed[OF no_reg]]
      by (simp add: setup_succeeds_def)
  next
    case created
    define w1 where "w1 = w\<lparr>fd_table := ?r # fd_table w,
              n_open := Suc (n_open w), n_write := Suc (n_write w),
              trace := trace w @
                     [Open ''/dev/uleds'' ?r,
                      Write_dev ?r \<lparr>dev_name = strlcpy (argv ! 1) LED_MAX_NAME_SIZE,
                                    dev_max_brightness = max_brightness\<rparr>]\<rparr>"
    have cr: "create_led_group_leader e (argv ! 1) w = (?r, w1)"
      unfolding w1_def by (rule leader_created[OF created])
    let ?g0 = "\<lparr>count = 0, led_fds = replicate MAX_LEDS_IN_GROUP 0\<rparr>"
    obtain ok g w2 where add: "add_leds e ?g0 (drop 2 argv) w1 = (ok, g, w2)"
      by (metis prod_cases3)
    have "ok = (count ?g0 + length (drop 2 argv) \<le> MAX_LEDS_IN_GROUP
                \<and> opens_ok e (n_open w1) (drop 2 argv))"
      using add_leds_ok[OF wf_group_initial, of e "drop 2 argv" w1] add by simp
    then have ok: "ok = setup_succeeds e argv w"
      using len created by (simp add: setup_succeeds_def w1_def)
    show ?thesis
    proof (cases ok)
      case False
      then show ?thesis
        using main_add_failed[OF len cr r, of g w2] add ok by simp
    next
      case True
      obtain st w3 where trk: "track_led_brightness e ?r g (reads e) w2 = (st, w3)"
        by (metis surj_pair)
      have st: "st = (if Read_error \<in> set (reads e) then STOPPED else RUNNING)"
        using track_state[of e ?r g "reads e" w2] trk by simp
      have "main e argv w = (case st of STOPPED \<Rightarrow> (Some EXIT_SUCCESS, main_done ?r g w3)
                                   | RUNNING \<Rightarrow> (None, w3))"
        using add True by (intro main_loop[OF len cr r _ trk]) simp
      then show ?thesis using True ok st by simp
    qed
  qed
qed

lemma mirror_trace_reports:
  "Read_error \<in> set rs \<Longrightarrow>
     Perror ''Failed to read brightness from /dev/uleds'' \<in> set (mirror_trace e f g rs n)"
  by (induction e f g rs n rule: mirror_trace.induct) auto

lemma main_success_reports:
  assumes "fst (main e argv w) = Some EXIT_SUCCESS"
  shows "Perror ''Failed to read brightness from /dev/uleds'' \<in> set (new_events w (snd (main e argv w)))"
proof -
  have ne: "EXIT_FAILURE \<noteq> EXIT_SUCCESS" by (simp add: EXIT_FAILURE_def EXIT_SUCCESS_def)
  have s: "setup_succeeds e argv w" and rd: "Read_error \<in> set (reads e)"
    using assms ne unfolding main_exit_code by (auto split: if_splits)
  have len: "4 \<le> length argv" and created: "open_ok e (n_open w) ''/dev/uleds''"
    "write_ret e (n_write w) \<noteq> -1"
    using s by (simp_all add: setup_succeeds_def)
  let ?r = "lowest_free (fd_table w)"
  have r: "?r \<noteq> -1" using lowest_free_nonneg[of "fd_table w"] by simp
  define w1 where "w1 = w\<lparr>fd_table := ?r # fd_table w,
              n_open := Suc (n_open w), n_write := Suc (n_write w),
              trace := trace w @
                     [Open ''/dev/uleds'' ?r,
                      Write_dev ?r \<lparr>dev_name = strlcpy (argv ! 1) LED_MAX_NAME_SIZE,
                                    dev_max_brightness = max_brightness\<rparr>]\<rparr>"
  have cr: "create_led_group_leader e (argv ! 1) w = (?r, w1)"
    unfolding w1_def by (rule leader_created[OF created])
  let ?g0 = "\<lparr>count = 0, led_fds = replicate MAX_LEDS_IN_GROUP 0\<rparr>"
  obtain ok g w2 where add: "add_leds e ?g0 (drop 2 argv) w1 = (ok, g, w2)"
    by (metis prod_cases3)
  have "\<exists>es. trace w2 = trace w1 @ es
           \<and> owned_after ({?r} \<union> set (members ?g0)) es = Some ({?r} \<union> set (members g))
           \<and> wf_group g \<and> distinct (members g) \<and> {?r} \<inter> set (members g) = {}"
    by (rule add_leds_inv[OF wf_group_initial _ _ _ add])
       (simp_all add: members_initial w1_def)
  then obtain es where es: "trace w2 = trace w1 @ es" "wf_group g"
    by blast
  have ok: "ok"
  proof (rule ccontr)
    assume "\<not> ok"
    then have "main e argv w = (Some EXIT_FAILURE, main_done ?r g w2)"
      using add by (intro main_add_failed[OF len cr r]) simp
    then show False using assms ne by simp
  qed
  obtain st w3 where trk: "track_led_brightness e ?r g (reads e) w2 = (st, w3)"
    by (metis surj_pair)
  have st: "st = STOPPED"
    using track_state[of e ?r g "reads e" w2] trk rd by simp
  have "main e argv w = (case st of STOPPED \<Rightarrow> (Some EXIT_SUCCESS, main_done ?r g w3)
                                   | RUNNING \<Rightarrow> (None, w3))"
    using add ok by (intro main_loop[OF len cr r _ trk]) simp
  then have m: "main e argv w = (Some EXIT_SUCCESS, main_done ?r g w3)"
    using st by simp
  have w3: "trace w3 = trace w2 @ mirror_trace e ?r g (reads e) (n_write w2)"
    using track_exact[OF es(2), of e ?r "reads e" w2] trk by simp
  have "trace (main_done ?r g w3)
          = trace w @ ([Open ''/dev/uleds'' ?r,
                      Write_dev ?r \<lparr>dev_name = strlcpy (argv ! 1) LED_MAX_NAME_SIZE,
                                    dev_max_brightness = max_brightness\<rparr>] @ es
               @ mirror_trace e ?r g (reads e) (n_write w2)
               @ (if 0 \<le> ?r then [Close ?r] else []) @ map Close (members g))"
    by (simp add: main_done_trace[OF es(2)] w3 es(1) w1_def)
  then have "new_events w (main_done ?r g w3)
          = [Open ''/dev/uleds'' ?r,
                      Write_dev ?r \<lparr>dev_name = strlcpy (argv ! 1) LED_MAX_NAME_SIZE,
                                    dev_max_brightness = max_brightness\<rparr>] @ es
               @ mirror_trace e ?r g (reads e) (n_write w2)
               @ (if 0 \<le> ?r then [Close ?r] else []) @ map Close (members g)"
    by (rule new_events_append)
  then show ?thesis
    using mirror_trace_reports[OF rd, of e ?r g "n_write w2"] by (simp add: m)
qed


text \<open>
  C7, as the code has it. \<open>main\<close> returns \<open>EXIT_SUCCESS\<close> exactly when setup succeeds
  and a read of the leader fails; that failed read, which the program reports on standard
  error, is the only way out of the loop, so an exit code of 0 always follows a reported
  read failure and no request to shut down is involved. Every setup failure (too short a
  command line, \<open>/dev/uleds\<close> not opened, the registration write failed, more followers
  than the group holds, the attribute file of a follower not opened) makes \<open>main\<close> return
  \<open>EXIT_FAILURE\<close>, which is not \<open>EXIT_SUCCESS\<close>.
\<close>

theorem exit_code_follows_setup_and_failed_read:
  "((fst (main e argv w) = Some EXIT_SUCCESS)
      = (setup_succeeds e argv w \<and> Read_error \<in> set (reads e)))
   \<and> (fst (main e argv w) = Some EXIT_SUCCESS \<longrightarrow>
        Perror ''Failed to read brightness from /dev/uleds''
          \<in> set (new_events w (snd (main e argv w))))
   \<and> (\<not> setup_succeeds e argv w \<longrightarrow> fst (main e argv w) = Some EXIT_FAILURE)
   \<and> (length argv < 4 \<longrightarrow> fst (main e argv w) = Some EXIT_FAILURE)
   \<and> (\<not> open_ok e (n_open w) ''/dev/uleds'' \<longrightarrow> fst (main e argv w) = Some EXIT_FAILURE)
   \<and> (write_ret e (n_write w) = -1 \<longrightarrow> fst (main e argv w) = Some EXIT_FAILURE)
   \<and> (MAX_LEDS_IN_GROUP < length (drop 2 argv) \<longrightarrow> fst (main e argv w) = Some EXIT_FAILURE)
   \<and> (\<not> opens_ok e (Suc (n_open w)) (drop 2 argv) \<longrightarrow> fst (main e argv w) = Some EXIT_FAILURE)
   \<and> EXIT_FAILURE \<noteq> EXIT_SUCCESS"
proof -
  have ne: "EXIT_FAILURE \<noteq> EXIT_SUCCESS" by (simp add: EXIT_FAILURE_def EXIT_SUCCESS_def)
  have a: "(fst (main e argv w) = Some EXIT_SUCCESS)
      = (setup_succeeds e argv w \<and> Read_error \<in> set (reads e))"
    using ne by (simp add: main_exit_code)
  have b: "\<not> setup_succeeds e argv w \<Longrightarrow> fst (main e argv w) = Some EXIT_FAILURE"
    by (simp add: main_exit_code)
  have c: "length argv < 4 \<Longrightarrow> \<not> setup_succeeds e argv w"
    "\<not> open_ok e (n_open w) ''/dev/uleds'' \<Longrightarrow> \<not> setup_succeeds e argv w"
    "write_ret e (n_write w) = -1 \<Longrightarrow> \<not> setup_succeeds e argv w"
    "MAX_LEDS_IN_GROUP < length (drop 2 argv) \<Longrightarrow> \<not> setup_succeeds e argv w"
    "\<not> opens_ok e (Suc (n_open w)) (drop 2 argv) \<Longrightarrow> \<not> setup_succeeds e argv w"
    by (simp_all add: setup_succeeds_def)
  show ?thesis
    using a b c ne main_success_reports[of e argv w] by blast
qed

theorem exit_code_follows_setup_and_failed_read_witness:
  "(setup_succeeds (scenario [] [] [Read_bytes 4 75, Read_error])
        [''led_group'', ''panel'', ''led0'', ''led1''] boot
    \<and> Read_error \<in> set (reads (scenario [] [] [Read_bytes 4 75, Read_error]))
    \<and> fst (main (scenario [] [] [Read_bytes 4 75, Read_error])
          [''led_group'', ''panel'', ''led0'', ''led1''] boot) = Some EXIT_SUCCESS
    \<and> Perror ''Failed to read brightness from /dev/uleds''
          \<in> set (new_events boot (snd (main (scenario [] [] [Read_bytes 4 75, Read_error])
                   [''led_group'', ''panel'', ''led0'', ''led1''] boot))))
   \<and> (length [''led_group'', ''panel'', ''led0''] < 4
      \<and> fst (main (scenario [] [] [Read_error]) [''led_group'', ''panel'', ''led0''] boot)
          = Some EXIT_FAILURE)
   \<and> (\<not> open_ok (scenario [''/dev/uleds''] [] [Read_error]) (n_open boot) ''/dev/uleds''
      \<and> fst (main (scenario [''/dev/uleds''] [] [Read_error])
            [''led_group'', ''panel'', ''led0'', ''led1''] boot) = Some EXIT_FAILURE)
   \<and> (write_ret (scenario [] [0] [Read_error]) (n_write boot) = -1
      \<and> fst (main (scenario [] [0] [Read_error])
            [''led_group'', ''panel'', ''led0'', ''led1''] boot) = Some EXIT_FAILURE)
   \<and> (MAX_LEDS_IN_GROUP < length (drop 2 [''led_group'', ''panel'', ''a'', ''b'', ''c'', ''d'', ''e''])
      \<and> fst (main (scenario [] [] [Read_error])
            [''led_group'', ''panel'', ''a'', ''b'', ''c'', ''d'', ''e''] boot) = Some EXIT_FAILURE)
   \<and> (\<not> opens_ok (scenario [''/sys/class/leds/led1/brightness''] [] [Read_error])
           (Suc (n_open boot)) (drop 2 [''led_group'', ''panel'', ''led0'', ''led1''])
      \<and> fst (main (scenario [''/sys/class/leds/led1/brightness''] [] [Read_error])
            [''led_group'', ''panel'', ''led0'', ''led1''] boot) = Some EXIT_FAILURE)"
proof -
  have p: "led_brightness_path ''led0'' = ''/sys/class/leds/led0/brightness''"
    "led_brightness_path ''led1'' = ''/sys/class/leds/led1/brightness''"
    by (simp_all add: led_brightness_path_def snprintf_def LED_MAX_NAME_SIZE_def)
  have h1: "setup_succeeds (scenario [] [] [Read_bytes 4 75, Read_error])
        [''led_group'', ''panel'', ''led0'', ''led1''] boot
    \<and> Read_error \<in> set (reads (scenario [] [] [Read_bytes 4 75, Read_error]))"
    by (simp add: setup_succeeds_def scenario_def boot_def MAX_LEDS_IN_GROUP_def)
  have h2: "length [''led_group'', ''panel'', ''led0''] < 4" by simp
  have h3: "\<not> open_ok (scenario [''/dev/uleds''] [] [Read_error]) (n_open boot) ''/dev/uleds''"
    by (simp add: scenario_def)
  have h4: "write_ret (scenario [] [0] [Read_error]) (n_write boot) = -1"
    by (simp add: scenario_def boot_def)
  have h5: "MAX_LEDS_IN_GROUP < length (drop 2 [''led_group'', ''panel'', ''a'', ''b'', ''c'', ''d'', ''e''])"
    by (simp add: MAX_LEDS_IN_GROUP_def)
  have h6: "\<not> opens_ok (scenario [''/sys/class/leds/led1/brightness''] [] [Read_error])
           (Suc (n_open boot)) (drop 2 [''led_group'', ''panel'', ''led0'', ''led1''])"
    by (simp add: p scenario_def)
  note t = exit_code_follows_setup_and_failed_read
  have c1: "fst (main (scenario [] [] [Read_bytes 4 75, Read_error])
          [''led_group'', ''panel'', ''led0'', ''led1''] boot) = Some EXIT_SUCCESS"
    by (rule iffD2[OF t[THEN conjunct1] h1])
  have c1p: "Perror ''Failed to read brightness from /dev/uleds''
          \<in> set (new_events boot (snd (main (scenario [] [] [Read_bytes 4 75, Read_error])
                   [''led_group'', ''panel'', ''led0'', ''led1''] boot)))"
    by (rule t[THEN conjunct2, THEN conjunct1, THEN mp, OF c1])
  have c2: "fst (main (scenario [] [] [Read_error]) [''led_group'', ''panel'', ''led0''] boot)
          = Some EXIT_FAILURE"
    by (rule t[THEN conjunct2, THEN conjunct2, THEN conjunct2, THEN conjunct1, THEN mp, OF h2])
  have c3: "fst (main (scenario [''/dev/uleds''] [] [Read_error])
            [''led_group'', ''panel'', ''led0'', ''led1''] boot) = Some EXIT_FAILURE"
    by (rule t[THEN conjunct2, THEN conjunct2, THEN conjunct2, THEN conjunct2, THEN conjunct1,
               THEN mp, OF h3])
  have c4: "fst (main (scenario [] [0] [Read_error])
            [''led_group'', ''panel'', ''led0'', ''led1''] boot) = Some EXIT_FAILURE"
    by (rule t[THEN conjunct2, THEN conjunct2, THEN conjunct2, THEN conjunct2, THEN conjunct2,
               THEN conjunct1, THEN mp, OF h4])
  have c5: "fst (main (scenario [] [] [Read_error])
            [''led_group'', ''panel'', ''a'', ''b'', ''c'', ''d'', ''e''] boot) = Some EXIT_FAILURE"
    by (rule t[THEN conjunct2, THEN conjunct2, THEN conjunct2, THEN conjunct2, THEN conjunct2,
               THEN conjunct2, THEN conjunct1, THEN mp, OF h5])
  have c6: "fst (main (scenario [''/sys/class/leds/led1/brightness''] [] [Read_error])
            [''led_group'', ''panel'', ''led0'', ''led1''] boot) = Some EXIT_FAILURE"
    by (rule t[THEN conjunct2, THEN conjunct2, THEN conjunct2, THEN conjunct2, THEN conjunct2,
               THEN conjunct2, THEN conjunct2, THEN conjunct1, THEN mp, OF h6])
  show ?thesis
    by (intro conjI h1[THEN conjunct1] h1[THEN conjunct2] h2 h3 h4 h5 h6 c1 c1p c2 c3 c4 c5 c6)
qed

text \<open>
  The claim C7 as stated fails: in a run in which nothing asks the program to stop and the
  first read of the leader fails, \<open>main\<close> reports the failed read and returns 0.
\<close>

theorem exit_code_zero_after_failed_read:
  "fst (main (scenario [] [] [Read_error]) [''led_group'', ''panel'', ''led0'', ''led1''] boot)
     = Some 0
   \<and> new_events boot
        (snd (main (scenario [] [] [Read_error]) [''led_group'', ''panel'', ''led0'', ''led1''] boot))
     = [Open ''/dev/uleds'' 3,
        Write_dev 3 \<lparr>dev_name = ''panel'', dev_max_brightness = 100\<rparr>,
        Open ''/sys/class/leds/led0/brightness'' 4,
        Open ''/sys/class/leds/led1/brightness'' 5,
        Read 3,
        Perror ''Failed to read brightness from /dev/uleds'',
        Close 3, Close 4, Close 5]"
proof -
  have p: "led_brightness_path ''led0'' = ''/sys/class/leds/led0/brightness''"
    "led_brightness_path ''led1'' = ''/sys/class/leds/led1/brightness''"
    by (simp_all add: led_brightness_path_def snprintf_def LED_MAX_NAME_SIZE_def)
  have r: "lowest_free [0, 1, 2] = 3" "lowest_free [3, 0, 1, 2] = 4" "lowest_free [4, 3, 0, 1, 2] = 5"
    by (simp_all add: lowest_free_def)
  have z: "replicate 4 (0::int) = [0, 0, 0, 0]" by (simp add: eval_nat_numeral)
  have u: "[0..<2] = [0, Suc 0]" by (simp add: numeral_2_eq_2)
  show ?thesis
    by (simp add: main_def main_done_def close_led_group_leds_def create_led_group_leader_def
          add_led_by_name_to_led_group_def add_led_by_fd_to_led_group_def sys_open_def
          sys_write_dev_def sys_close_def perror_def read_ret_def strlcpy_def max_brightness_def
          LED_MAX_NAME_SIZE_def EXIT_SUCCESS_def new_events_def
          scenario_def boot_def MAX_LEDS_IN_GROUP_def Let_def p r z u)
qed

subsection \<open>Closing twice\<close>

text \<open>
  C8, as the code has it. On an empty group the close-all does nothing. It keeps no
  record of what it closed, so called again on the same group it calls \<open>close\<close> again on
  every member; with no \<open>open\<close> in between, these calls find the descriptors closed and
  leave the descriptor table as it is.
\<close>

theorem close_all_again_repeats_the_closes:
  "(count g = 0 \<longrightarrow> close_led_group_leds g w = w)
   \<and> (wf_group g \<longrightarrow>
        new_events w (close_led_group_leds g w) = map Close (members g)
        \<and> new_events (close_led_group_leds g w)
             (close_led_group_leds g (close_led_group_leds g w)) = map Close (members g)
        \<and> fd_table (close_led_group_leds g (close_led_group_leds g w))
            = fd_table (close_led_group_leds g w))"
proof (intro conjI impI)
  assume "count g = 0"
  then show "close_led_group_leds g w = w" by (simp add: close_led_group_leds_def)
next
  assume g: "wf_group g"
  show "new_events w (close_led_group_leds g w) = map Close (members g)"
    by (simp add: close_led_group_leds_eq[OF g] new_events_def)
  show "new_events (close_led_group_leds g w)
             (close_led_group_leds g (close_led_group_leds g w)) = map Close (members g)"
    by (simp add: close_led_group_leds_eq[OF g] new_events_def)
  show "fd_table (close_led_group_leds g (close_led_group_leds g w))
            = fd_table (close_led_group_leds g w)"
    by (simp add: close_led_group_leds_eq[OF g])
qed

theorem close_all_again_repeats_the_closes_witness:
  "count \<lparr>count = 0, led_fds = replicate MAX_LEDS_IN_GROUP 0\<rparr> = 0
   \<and> close_led_group_leds \<lparr>count = 0, led_fds = replicate MAX_LEDS_IN_GROUP 0\<rparr> boot = boot
   \<and> wf_group two_leds
   \<and> new_events boot (close_led_group_leds two_leds boot) = [Close 4, Close 5]
   \<and> new_events (close_led_group_leds two_leds boot)
        (close_led_group_leds two_leds (close_led_group_leds two_leds boot)) = [Close 4, Close 5]"
proof -
  have h1: "count \<lparr>count = 0, led_fds = replicate MAX_LEDS_IN_GROUP 0\<rparr> = 0" by simp
  have h2: "wf_group two_leds" by (simp add: wf_group_def two_leds_def MAX_LEDS_IN_GROUP_def)
  have m: "members two_leds = [4, 5]" by (simp add: members_def two_leds_def)
  show ?thesis
    using h1 h2
      close_all_again_repeats_the_closes[of "\<lparr>count = 0, led_fds = replicate MAX_LEDS_IN_GROUP 0\<rparr>" boot]
      close_all_again_repeats_the_closes[of two_leds boot]
    by (simp add: m)
qed

text \<open>
  The claim C8 as stated fails: a second close-all on a group already closed is not a
  no-op. It calls \<open>close\<close> on descriptor 4 again; and when descriptor 4 has been given to
  another open in the meantime, it closes that handle.
\<close>

theorem close_all_again_is_not_a_no_op:
  "new_events (close_led_group_leds one_led world_of_one)
      (close_led_group_leds one_led (close_led_group_leds one_led world_of_one)) = [Close 4]
   \<and> fst (sys_open (scenario [] [] []) ''/dev/null'' (close_led_group_leds one_led world_of_one)) = 4
   \<and> fd_table (snd (sys_open (scenario [] [] []) ''/dev/null''
                       (close_led_group_leds one_led world_of_one))) = [4, 3, 0, 1, 2]
   \<and> fd_table (close_led_group_leds one_led
                  (snd (sys_open (scenario [] [] []) ''/dev/null''
                          (close_led_group_leds one_led world_of_one)))) = [3, 0, 1, 2]"
proof -
  have r: "lowest_free [3, 0, 1, 2] = 4" by (simp add: lowest_free_def)
  show ?thesis
    by (simp add: close_led_group_leds_def one_led_def world_of_one_def sys_close_def
          sys_open_def scenario_def new_events_def r)
qed

end
